theory Spec2Isabelle
  imports Complex_Main
begin

section \<open>Device samples\<close>

text \<open>
  A JavaScript number is modelled as a real: the comparisons the code makes
  (\<open>>\<close>, \<open><\<close>, \<open>!==\<close>) agree with the order and equality of the reals on
  every finite double. A button sample is either a bare number (what
  \<open>typeof rawBtn == 'number'\<close> tests for) or an object with the fields
  \<open>pressed\<close> and \<open>value\<close>.
\<close>

datatype GamepadButton =
    BtnNumber real
  | BtnObject (pressed: bool) (btn_value: real)

text \<open>
  The state of a device's \<open>Gamepad\<close> object at one moment. Nothing changes
  the objects while a frame pass runs, so within one pass the object of a slot
  and the object stored for it are read as values. Across frames the objects
  are held by reference: see the section on frames on a host.
\<close>

record Gamepad =
  gamepad_id :: string
  axes :: "real list"
  buttons :: "GamepadButton list"
  timestamp :: real

text \<open>
  Indexing a JavaScript array: an index past the end reads \<open>undefined\<close>,
  which is \<open>None\<close> here.
\<close>

definition elemAt :: "'a list \<Rightarrow> nat \<Rightarrow> 'a option" where
  "elemAt xs n = (if n < length xs then Some (xs ! n) else None)"

text \<open>\<open>String.prototype.includes\<close>: the argument occurs as a contiguous substring.\<close>

fun str_includes :: "string \<Rightarrow> string \<Rightarrow> bool" where
  "str_includes [] sub = (sub = [])"
| "str_includes (c # cs) sub = (take (length sub) (c # cs) = sub \<or> str_includes cs sub)"

definition isInvalidGamepad :: "Gamepad \<Rightarrow> bool" where
  "isInvalidGamepad gamepad =
     (str_includes (gamepad_id gamepad) ''Unknown Gamepad'' \<or>
      (length (axes gamepad) = 0 \<and> length (buttons gamepad) = 0))"

fun isPressed :: "GamepadButton \<Rightarrow> bool" where
  "isPressed (BtnNumber rawBtn) = (rawBtn > 0.1)"
| "isPressed (BtnObject p v) = p"

section \<open>Bindings, contexts, actions\<close>

text \<open>
  Modelled from the spec: the declarations of \<open>Binding\<close>, \<open>Context\<close>,
  \<open>Action\<close> and \<open>GamepadState\<close> (module \<open>~utils/InputSystem/@types\<close>) are
  not among the sources. The variants and fields are the ones the code reads
  and builds; \<open>onKeyDown\<close> is the truth value the handlers test. The last
  variant stands for a binding object whose \<open>type\<close> tag is none of the five
  the \<open>switch\<close> lists.
\<close>

datatype Binding =
    KeyboardBinding (code: string) (onKeyDown: bool)
  | GamepadBinding
  | GamepadAxisBinding (axis: nat)
  | GamepadBtnBinding (button: nat)
  | SpaceMouseBinding
  | UnknownBinding string

record GamepadState =
  gamepad :: Gamepad
  prevGamepad :: "Gamepad option"
  index :: nat

datatype Context =
    KeyboardContext
  | NoneContext
  | GamepadContext string GamepadState
  | GamepadAxisContext string GamepadState "real option"
  | GamepadBtnContext string GamepadState
  | SpaceMouseContext string GamepadState "real list" "GamepadButton list"

definition keyboardCtx :: Context where
  "keyboardCtx = KeyboardContext"

definition emptyCtx :: Context where
  "emptyCtx = NoneContext"

text \<open>
  An action's callback \<open>perform\<close> is opaque: calling it is recorded as the
  pair of the action and the context it receives.
\<close>

record Action =
  name :: string
  bindings :: "Binding list"

type_synonym Dispatch = "Action \<times> Context"

datatype error = TypeError

section \<open>The input system\<close>

text \<open>
  \<open>lastTimestamp\<close> and \<open>lastGamepad\<close> are JavaScript arrays written by
  index and never read for their length: a slot never written reads
  \<open>undefined\<close>. \<open>lastGamepad\<close> gives, per slot, the state the stored
  object has during the pass at hand.
\<close>

record InputSystem =
  isRunning :: bool
  actions :: "Action list"
  lastTimestamp :: "nat \<rightharpoonup> real"
  lastGamepad :: "nat \<rightharpoonup> Gamepad"
  isBrowserSupported :: bool

text \<open>
  What a call leaves behind: the callbacks performed, in order; the system;
  the exception that ended the call, if any; and the number of
  \<open>requestAnimationFrame\<close> registrations made.
\<close>

record Outcome =
  dispatched :: "Dispatch list"
  system :: InputSystem
  failure :: "error option"
  frameRequests :: nat

definition noEffect :: "InputSystem \<Rightarrow> Outcome" where
  "noEffect s = \<lparr>dispatched = [], system = s, failure = None, frameRequests = 0\<rparr>"

text \<open>
  The constructor: \<open>hasGetGamepads\<close> is whether \<open>navigator.getGamepads\<close>
  exists. The result carries the event names listened to and the warnings
  printed.
\<close>

definition initEventListeners :: "string list" where
  "initEventListeners = [''keydown'', ''keyup'', ''gamepadconnected'', ''gamepaddisconnected'']"

definition constructor :: "Action list \<Rightarrow> bool \<Rightarrow> InputSystem \<times> string list \<times> string list" where
  "constructor acts hasGetGamepads =
     (let this = \<lparr>isRunning = False, actions = acts, lastTimestamp = Map.empty,
                  lastGamepad = Map.empty, isBrowserSupported = True\<rparr>
      in if \<not> hasGetGamepads
         then (this\<lparr>isBrowserSupported := False\<rparr>, [],
               [''This browser does not support gamepads.''])
         else (this, initEventListeners, []))"

definition stop :: "InputSystem \<Rightarrow> InputSystem" where
  "stop s = s\<lparr>isRunning := False\<rparr>"

definition setActionMap :: "InputSystem \<Rightarrow> Action list \<Rightarrow> InputSystem" where
  "setActionMap s acts = s\<lparr>actions := acts\<rparr>"

text \<open>
  \<open>checkActionsBindings\<close>: the two nested loops. The callback's result is
  \<open>Inl\<close> when it throws, \<open>Inr None\<close> when it returns \<open>undefined\<close> (then the
  array destructuring throws a TypeError), and \<open>Inr (Some (canPerform, context))\<close>
  otherwise. An exception ends both loops; what was performed before stays
  performed.
\<close>

fun checkBindings ::
  "(Binding \<Rightarrow> error + (bool \<times> Context) option) \<Rightarrow> Action \<Rightarrow> Binding list
     \<Rightarrow> Dispatch list \<times> error option" where
  "checkBindings checkBinding action [] = ([], None)"
| "checkBindings checkBinding action (binding # rest) =
     (case checkBinding binding of
        Inl e \<Rightarrow> ([], Some e)
      | Inr None \<Rightarrow> ([], Some TypeError)
      | Inr (Some (canPerform, context)) \<Rightarrow>
          (case checkBindings checkBinding action rest of
             (ds, r) \<Rightarrow> ((if canPerform then [(action, context)] else []) @ ds, r)))"

fun checkActionsBindings ::
  "(Binding \<Rightarrow> error + (bool \<times> Context) option) \<Rightarrow> Action list
     \<Rightarrow> Dispatch list \<times> error option" where
  "checkActionsBindings checkBinding [] = ([], None)"
| "checkActionsBindings checkBinding (action # rest) =
     (case checkBindings checkBinding action (bindings action) of
        (ds, Some e) \<Rightarrow> (ds, Some e)
      | (ds, None) \<Rightarrow>
          (case checkActionsBindings checkBinding rest of
             (ds', r) \<Rightarrow> (ds @ ds', r)))"

text \<open>
  The callback \<open>updateGamepad\<close> passes for slot \<open>i\<close> holding \<open>gamepad\<close>. The
  axis case reads \<open>this.lastGamepad[i].axes\<close> with a plain member access,
  which throws when the slot has no history; the button case reads
  \<open>this.lastGamepad[i]?.buttons\<close>. A tag no case lists falls out of the
  \<open>switch\<close> and the callback returns \<open>undefined\<close>.
\<close>

definition gamepadStateOf :: "InputSystem \<Rightarrow> nat \<Rightarrow> Gamepad \<Rightarrow> GamepadState" where
  "gamepadStateOf this i g = \<lparr>gamepad = g, prevGamepad = lastGamepad this i, index = i\<rparr>"

fun gamepadCheckBinding ::
  "InputSystem \<Rightarrow> nat \<Rightarrow> Gamepad \<Rightarrow> Binding \<Rightarrow> error + (bool \<times> Context) option" where
  "gamepadCheckBinding this i g GamepadBinding =
     (if str_includes (gamepad_id g) ''SpaceMouse''
      then Inr (Some (False, emptyCtx))
      else Inr (Some (True, GamepadContext (gamepad_id g) (gamepadStateOf this i g))))"
| "gamepadCheckBinding this i g (KeyboardBinding c d) = Inr (Some (False, emptyCtx))"
| "gamepadCheckBinding this i g (GamepadAxisBinding k) =
     (let v = elemAt (axes g) k
      in case lastGamepad this i of
           None \<Rightarrow> Inl TypeError
         | Some prev \<Rightarrow>
             if v \<noteq> elemAt (axes prev) k
             then Inr (Some (True,
                    GamepadAxisContext (gamepad_id g) (gamepadStateOf this i g) (elemAt (axes g) k)))
             else Inr (Some (False, emptyCtx)))"
| "gamepadCheckBinding this i g (GamepadBtnBinding k) =
     (let btn = elemAt (buttons g) k;
          lastBtn = (case lastGamepad this i of None \<Rightarrow> None | Some prev \<Rightarrow> elemAt (buttons prev) k);
          currentlyPressed = (case btn of None \<Rightarrow> False | Some b \<Rightarrow> isPressed b);
          pressedLastUpdate = (case lastBtn of None \<Rightarrow> False | Some b \<Rightarrow> isPressed b)
      in if currentlyPressed \<and> \<not> pressedLastUpdate
         then Inr (Some (True, GamepadBtnContext (gamepad_id g) (gamepadStateOf this i g)))
         else Inr (Some (False, emptyCtx)))"
| "gamepadCheckBinding this i g SpaceMouseBinding =
     (if str_includes (gamepad_id g) ''SpaceMouse''
      then Inr (Some (True,
             SpaceMouseContext (gamepad_id g) (gamepadStateOf this i g) (axes g) (buttons g)))
      else Inr (Some (False, emptyCtx)))"
| "gamepadCheckBinding this i g (UnknownBinding t) = Inr None"

text \<open>
  \<open>updateGamepad\<close>: \<open>gamepads\<close> is the array \<open>navigator.getGamepads()\<close>
  returned, \<open>None\<close> for an empty slot. The loop runs \<open>i\<close> from \<open>0\<close> while
  \<open>i <= gamepads.length\<close>.
\<close>

function updateGamepadFrom :: "Gamepad option list \<Rightarrow> nat \<Rightarrow> InputSystem \<Rightarrow> Outcome" where
  "updateGamepadFrom gamepads i this =
     (if i \<le> length gamepads then
        (case elemAt gamepads i of
           None \<Rightarrow> updateGamepadFrom gamepads (Suc i) this
         | Some None \<Rightarrow> updateGamepadFrom gamepads (Suc i) this
         | Some (Some g) \<Rightarrow>
             if isInvalidGamepad g then updateGamepadFrom gamepads (Suc i) this
             else
               (case checkActionsBindings (gamepadCheckBinding this i g) (actions this) of
                  (ds, Some e) \<Rightarrow>
                    \<lparr>dispatched = ds, system = this, failure = Some e, frameRequests = 0\<rparr>
                | (ds, None) \<Rightarrow>
                    (let out = updateGamepadFrom gamepads (Suc i)
                                 (this\<lparr>lastTimestamp := (lastTimestamp this)(i \<mapsto> timestamp g),
                                       lastGamepad := (lastGamepad this)(i \<mapsto> g)\<rparr>)
                     in out\<lparr>dispatched := ds @ dispatched out\<rparr>)))
      else noEffect this)"
  by pat_completeness auto
termination
  by (relation "measure (\<lambda>(gamepads, i, this). Suc (length gamepads) - i)") auto

definition updateGamepad :: "InputSystem \<Rightarrow> Gamepad option list \<Rightarrow> Outcome" where
  "updateGamepad this gamepads = updateGamepadFrom gamepads 0 this"

text \<open>
  \<open>update\<close>, the frame callback: an exception in \<open>updateGamepad\<close> leaves
  before \<open>requestAnimationFrame\<close> is reached.
\<close>

definition update :: "InputSystem \<Rightarrow> Gamepad option list \<Rightarrow> Outcome" where
  "update this gamepads =
     (if isRunning this then
        (let out = updateGamepad this gamepads
         in if failure out = None then out\<lparr>frameRequests := Suc (frameRequests out)\<rparr> else out)
      else noEffect this)"

definition start :: "InputSystem \<Rightarrow> Gamepad option list \<Rightarrow> Outcome" where
  "start this gamepads =
     (if isBrowserSupported this \<and> \<not> isRunning this
      then update (this\<lparr>isRunning := True\<rparr>) gamepads
      else noEffect this)"

text \<open>The keyboard handlers; the event is read for its \<open>code\<close> only.\<close>

fun keyDownCheckBinding :: "string \<Rightarrow> Binding \<Rightarrow> error + (bool \<times> Context) option" where
  "keyDownCheckBinding e_code (KeyboardBinding c d) =
     (if d \<and> c = e_code then Inr (Some (True, keyboardCtx)) else Inr (Some (False, emptyCtx)))"
| "keyDownCheckBinding e_code b = Inr (Some (False, emptyCtx))"

fun keyUpCheckBinding :: "string \<Rightarrow> Binding \<Rightarrow> error + (bool \<times> Context) option" where
  "keyUpCheckBinding e_code (KeyboardBinding c d) =
     (if \<not> d \<and> c = e_code then Inr (Some (True, keyboardCtx)) else Inr (Some (False, emptyCtx)))"
| "keyUpCheckBinding e_code b = Inr (Some (False, emptyCtx))"

definition onKeyDown_handler :: "InputSystem \<Rightarrow> string \<Rightarrow> Outcome" where
  "onKeyDown_handler this e_code =
     (case checkActionsBindings (keyDownCheckBinding e_code) (actions this) of
        (ds, r) \<Rightarrow> \<lparr>dispatched = ds, system = this, failure = r, frameRequests = 0\<rparr>)"

definition onKeyUp_handler :: "InputSystem \<Rightarrow> string \<Rightarrow> Outcome" where
  "onKeyUp_handler this e_code =
     (case checkActionsBindings (keyUpCheckBinding e_code) (actions this) of
        (ds, r) \<Rightarrow> \<lparr>dispatched = ds, system = this, failure = r, frameRequests = 0\<rparr>)"

section \<open>The joy message\<close>

text \<open>
  \<open>~~x\<close> is ToInt32: truncate towards zero, then wrap into the signed 32-bit
  range. \<open>Math.round\<close> of a millisecond count divided by 1000 rounds halves
  up. A bare-number button has no \<open>value\<close> field, and \<open>~~undefined\<close> is 0.
\<close>

definition toInt32 :: "real \<Rightarrow> int" where
  "toInt32 x =
     (let t = (if x \<ge> 0 then \<lfloor>x\<rfloor> else \<lceil>x\<rceil>)
      in (t + 2 ^ 31) mod 2 ^ 32 - 2 ^ 31)"

record JoyHeader =
  seq :: nat
  stamp_sec :: int
  stamp_nsecs :: int
  frame_id :: string

record Joy =
  header :: JoyHeader
  joy_axes :: "real list"
  joy_buttons :: "int list"

fun buttonToInt :: "GamepadButton \<Rightarrow> int" where
  "buttonToInt (BtnNumber x) = 0"
| "buttonToInt (BtnObject p v) = toInt32 v"

text \<open>
  \<open>joySeqId\<close> is the module's counter and \<open>now\<close> the clock's milliseconds;
  the result is the message and the counter after \<open>joySeqId++\<close>.
\<close>

definition mapGamepadToJoy :: "nat \<Rightarrow> int \<Rightarrow> Gamepad \<Rightarrow> Joy \<times> nat" where
  "mapGamepadToJoy joySeqId now g =
     (let seconds = (now + 500) div 1000
      in (\<lparr>header = \<lparr>seq = joySeqId, stamp_sec = seconds, stamp_nsecs = 0, frame_id = ''''\<rparr>,
           joy_axes = map (\<lambda>x. if x < 0.09 then 0.0 else x) (axes g),
           joy_buttons = map buttonToInt (buttons g)\<rparr>,
          Suc joySeqId))"

section \<open>Vocabulary of the specification\<close>


text \<open>
  The slots a frame pass presents to the bindings: in range, holding a
  device, and not invalid.
\<close>

definition validSlot :: "Gamepad option list \<Rightarrow> nat \<Rightarrow> (nat \<times> Gamepad) list" where
  "validSlot gamepads i =
     (case elemAt gamepads i of
        Some (Some g) \<Rightarrow> if isInvalidGamepad g then [] else [(i, g)]
      | _ \<Rightarrow> [])"

definition validSlots :: "Gamepad option list \<Rightarrow> (nat \<times> Gamepad) list" where
  "validSlots gamepads = concat (map (validSlot gamepads) [0..<length gamepads])"

text \<open>What one evaluation of a binding performs: the action, if the callback says so.\<close>

definition performs ::
  "(Binding \<Rightarrow> error + (bool \<times> Context) option) \<Rightarrow> Action \<Rightarrow> Binding \<Rightarrow> Dispatch list" where
  "performs chk a b = (case chk b of Inr (Some (True, ctx)) \<Rightarrow> [(a, ctx)] | _ \<Rightarrow> [])"

definition slotPerforms :: "InputSystem \<Rightarrow> nat \<times> Gamepad \<Rightarrow> Dispatch list" where
  "slotPerforms s ig =
     concat (map (\<lambda>a. concat (map (performs (gamepadCheckBinding s (fst ig) (snd ig)) a) (bindings a)))
                 (actions s))"

text \<open>
  A frame's expected dispatches of one kind: for every valid slot in order,
  every action in order and every binding of it in order, what \<open>rule\<close> says.
\<close>

definition expectedDispatches ::
  "(InputSystem \<Rightarrow> nat \<times> Gamepad \<Rightarrow> Action \<Rightarrow> Binding \<Rightarrow> Dispatch list)
     \<Rightarrow> InputSystem \<Rightarrow> Gamepad option list \<Rightarrow> Dispatch list" where
  "expectedDispatches rule s gamepads =
     concat (map (\<lambda>ig. concat (map (\<lambda>a. concat (map (rule s ig a) (bindings a))) (actions s)))
                 (validSlots gamepads))"



fun isGamepadContext :: "Context \<Rightarrow> bool" where
  "isGamepadContext (GamepadContext d gs) = True"
| "isGamepadContext c = False"

fun isSpaceMouseContext :: "Context \<Rightarrow> bool" where
  "isSpaceMouseContext (SpaceMouseContext d gs as bs) = True"
| "isSpaceMouseContext c = False"



fun plainDevice :: "InputSystem \<Rightarrow> nat \<times> Gamepad \<Rightarrow> Action \<Rightarrow> Binding \<Rightarrow> Dispatch list" where
  "plainDevice s (i, g) a GamepadBinding =
     (if str_includes (gamepad_id g) ''SpaceMouse'' then []
      else [(a, GamepadContext (gamepad_id g) (gamepadStateOf s i g))])"
| "plainDevice s (i, g) a b = []"

fun specialDevice :: "InputSystem \<Rightarrow> nat \<times> Gamepad \<Rightarrow> Action \<Rightarrow> Binding \<Rightarrow> Dispatch list" where
  "specialDevice s (i, g) a SpaceMouseBinding =
     (if str_includes (gamepad_id g) ''SpaceMouse''
      then [(a, SpaceMouseContext (gamepad_id g) (gamepadStateOf s i g) (axes g) (buttons g))]
      else [])"
| "specialDevice s (i, g) a b = []"

text \<open>The keyboard bindings of an action that a key event with code \<open>c\<close> matches.\<close>

fun matchesKey :: "bool \<Rightarrow> string \<Rightarrow> Binding \<Rightarrow> bool" where
  "matchesKey down c (KeyboardBinding c' d) = (d = down \<and> c' = c)"
| "matchesKey down c b = False"

definition keyDispatches :: "bool \<Rightarrow> string \<Rightarrow> Action list \<Rightarrow> Dispatch list" where
  "keyDispatches down c acts =
     concat (map (\<lambda>a. map (\<lambda>b. (a, KeyboardContext)) (filter (matchesKey down c) (bindings a))) acts)"

section \<open>The spacemouse context over a store\<close>

text \<open>
  The frame model reads samples as values, and its spacemouse context carries
  the values of \<open>[...gamepad.axes]\<close> and \<open>[...gamepad.buttons]\<close>. What a later
  change to the live device does to a delivered context depends on what the two
  copies share with the device, so here arrays and button objects live in a
  store and are held by reference. An axes array holds numbers; a buttons array
  holds, per button, a bare number or a reference to a button object. Spread
  syntax allocates a new array with the same elements: a reference element is
  copied as the reference.
\<close>

type_synonym ref = nat

datatype rawButton = RawNumber real | RawObject ref

record Store =
  axesArrays :: "ref \<rightharpoonup> real list"
  buttonArrays :: "ref \<rightharpoonup> rawButton list"
  buttonObjects :: "ref \<rightharpoonup> bool \<times> real"
  nextRef :: ref

record LiveGamepad =
  live_id :: string
  live_axes :: ref
  live_buttons :: ref

text \<open>The \<open>axes\<close> and \<open>buttons\<close> fields of the delivered spacemouse context.\<close>

record SpaceMouseArrays =
  ctx_axes :: ref
  ctx_buttons :: ref

definition spreadAxes :: "Store \<Rightarrow> ref \<Rightarrow> (ref \<times> Store) option" where
  "spreadAxes st r =
     (case axesArrays st r of
        None \<Rightarrow> None
      | Some xs \<Rightarrow>
          Some (nextRef st,
                st\<lparr>axesArrays := (axesArrays st)(nextRef st \<mapsto> xs), nextRef := Suc (nextRef st)\<rparr>))"

definition spreadButtons :: "Store \<Rightarrow> ref \<Rightarrow> (ref \<times> Store) option" where
  "spreadButtons st r =
     (case buttonArrays st r of
        None \<Rightarrow> None
      | Some bs \<Rightarrow>
          Some (nextRef st,
                st\<lparr>buttonArrays := (buttonArrays st)(nextRef st \<mapsto> bs), nextRef := Suc (nextRef st)\<rparr>))"

definition spacemouseArrays :: "Store \<Rightarrow> LiveGamepad \<Rightarrow> (SpaceMouseArrays \<times> Store) option" where
  "spacemouseArrays st dev =
     (case spreadAxes st (live_axes dev) of
        None \<Rightarrow> None
      | Some (ra, st1) \<Rightarrow>
          (case spreadButtons st1 (live_buttons dev) of
             None \<Rightarrow> None
           | Some (rb, st2) \<Rightarrow> Some (\<lparr>ctx_axes = ra, ctx_buttons = rb\<rparr>, st2)))"

text \<open>What the holder of a context reads: the numbers, and each button with its fields.\<close>

fun resolveButton :: "Store \<Rightarrow> rawButton \<Rightarrow> GamepadButton option" where
  "resolveButton st (RawNumber v) = Some (BtnNumber v)"
| "resolveButton st (RawObject r) =
     (case buttonObjects st r of None \<Rightarrow> None | Some (p, v) \<Rightarrow> Some (BtnObject p v))"

definition readAxes :: "Store \<Rightarrow> ref \<Rightarrow> real list option" where
  "readAxes st r = axesArrays st r"

definition readButtons :: "Store \<Rightarrow> ref \<Rightarrow> GamepadButton option list option" where
  "readButtons st r = map_option (map (resolveButton st)) (buttonArrays st r)"

text \<open>
  Changes to the live device after the dispatch: its axes array gets new
  contents, its buttons array gets new contents, or a button object is changed
  in place.
\<close>

datatype Mutation =
    SetAxes "real list"
  | SetButtons "rawButton list"
  | SetButtonObject ref bool real

fun mutate :: "LiveGamepad \<Rightarrow> Store \<Rightarrow> Mutation \<Rightarrow> Store" where
  "mutate dev st (SetAxes xs) = st\<lparr>axesArrays := (axesArrays st)(live_axes dev \<mapsto> xs)\<rparr>"
| "mutate dev st (SetButtons bs) = st\<lparr>buttonArrays := (buttonArrays st)(live_buttons dev \<mapsto> bs)\<rparr>"
| "mutate dev st (SetButtonObject r p v) = st\<lparr>buttonObjects := (buttonObjects st)(r \<mapsto> (p, v))\<rparr>"

text \<open>
  The spacemouse case builds its two arrays from the device in store \<open>st\<close>;
  then the changes \<open>ms\<close> happen; the result is what the context's two arrays
  read afterwards.
\<close>

definition contextReadsAfter ::
  "Store \<Rightarrow> LiveGamepad \<Rightarrow> Mutation list
     \<Rightarrow> (real list option \<times> GamepadButton option list option) option" where
  "contextReadsAfter st dev ms =
     (case spacemouseArrays st dev of
        None \<Rightarrow> None
      | Some (ctx, st') \<Rightarrow>
          (let st'' = foldl (mutate dev) st' ms
           in Some (readAxes st'' (ctx_axes ctx), readButtons st'' (ctx_buttons ctx))))"

text \<open>A change in place of a button object that the device's buttons array refers to.\<close>

fun inPlace :: "Store \<Rightarrow> LiveGamepad \<Rightarrow> Mutation \<Rightarrow> bool" where
  "inPlace st dev (SetButtonObject r p v) =
     (case buttonArrays st (live_buttons dev) of
        None \<Rightarrow> False
      | Some bs \<Rightarrow> RawObject r \<in> set bs)"
| "inPlace st dev m = False"

section \<open>Frames on a host\<close>










section \<open>Example devices\<close>

definition negPad :: Gamepad where
  "negPad = \<lparr>gamepad_id = ''Xbox 360 Controller'', axes = [- 1.0, 0.5],
              buttons = [BtnObject False 0], timestamp = 10\<rparr>"

definition padIdle :: Gamepad where
  "padIdle = \<lparr>gamepad_id = ''Xbox 360 Controller'', axes = [0.2],
               buttons = [BtnObject False 0], timestamp = 1\<rparr>"

definition padPress :: Gamepad where
  "padPress = \<lparr>gamepad_id = ''Xbox 360 Controller'', axes = [0.2],
                buttons = [BtnObject True 1], timestamp = 2\<rparr>"


definition estop :: Action where
  "estop = \<lparr>name = ''estop'', bindings = [GamepadBtnBinding 0]\<rparr>"

definition running :: "Action list \<Rightarrow> InputSystem" where
  "running acts = (fst (constructor acts True))\<lparr>isRunning := True\<rparr>"

definition steer :: Action where
  "steer = \<lparr>name = ''steer'', bindings = [GamepadAxisBinding 0]\<rparr>"


definition spaceMouse :: Gamepad where
  "spaceMouse = \<lparr>gamepad_id = ''3Dconnexion SpaceMouse Pro'', axes = [0.1, 0.3],
                  buttons = [BtnObject False 0], timestamp = 5\<rparr>"

definition drive :: Action where
  "drive = \<lparr>name = ''drive'', bindings = [GamepadBinding]\<rparr>"

definition arm :: Action where
  "arm = \<lparr>name = ''arm'', bindings = [SpaceMouseBinding]\<rparr>"

definition hotkeys :: Action where
  "hotkeys = \<lparr>name = ''hotkeys'',
              bindings = [KeyboardBinding ''Space'' True, GamepadBtnBinding 0,
                          KeyboardBinding ''KeyA'' True]\<rparr>"

definition release :: Action where
  "release = \<lparr>name = ''release'', bindings = [KeyboardBinding ''Space'' False]\<rparr>"

definition odd :: Action where
  "odd = \<lparr>name = ''odd'', bindings = [UnknownBinding ''mouse'']\<rparr>"

definition ghostPad :: Gamepad where
  "ghostPad = \<lparr>gamepad_id = ''Unknown Gamepad (Vendor: 0000)'', axes = [0.7],
                buttons = [BtnObject True 1], timestamp = 4\<rparr>"

definition emptyPad :: Gamepad where
  "emptyPad = \<lparr>gamepad_id = ''Stub'', axes = [], buttons = [], timestamp = 4\<rparr>"

definition liveStore :: Store where
  "liveStore = \<lparr>axesArrays = [0 \<mapsto> [0.1, 0.3]], buttonArrays = [1 \<mapsto> [RawObject 2, RawNumber 0.5]],
                buttonObjects = [2 \<mapsto> (False, 0)], nextRef = 3\<rparr>"

definition liveMouse :: LiveGamepad where
  "liveMouse = \<lparr>live_id = ''3Dconnexion SpaceMouse Pro'', live_axes = 0, live_buttons = 1\<rparr>"







section \<open>Properties of the loops\<close>

declare updateGamepadFrom.simps [simp del]

subsection \<open>Substrings\<close>

lemma str_includes_iff: "str_includes s sub \<longleftrightarrow> (\<exists>ps ss. s = ps @ sub @ ss)"
proof (induction s)
  case Nil
  then show ?case by auto
next
  case (Cons c cs)
  have "take (length sub) (c # cs) = sub \<longleftrightarrow> (\<exists>ss. c # cs = sub @ ss)"
    by (metis append_eq_conv_conj append_take_drop_id)
  moreover have "(\<exists>ps ss. c # cs = ps @ sub @ ss) \<longleftrightarrow>
      (\<exists>ss. c # cs = sub @ ss) \<or> (\<exists>ps ss. cs = ps @ sub @ ss)"
  proof
    assume "\<exists>ps ss. c # cs = ps @ sub @ ss"
    then obtain ps ss where e: "c # cs = ps @ sub @ ss" by blast
    show "(\<exists>ss. c # cs = sub @ ss) \<or> (\<exists>ps ss. cs = ps @ sub @ ss)"
    proof (cases ps)
      case Nil
      with e show ?thesis by auto
    next
      case (Cons p ps')
      with e have "cs = ps' @ sub @ ss" by simp
      then show ?thesis by blast
    qed
  next
    assume "(\<exists>ss. c # cs = sub @ ss) \<or> (\<exists>ps ss. cs = ps @ sub @ ss)"
    then show "\<exists>ps ss. c # cs = ps @ sub @ ss"
    proof
      assume "\<exists>ss. c # cs = sub @ ss"
      then show ?thesis by (metis append_Nil)
    next
      assume "\<exists>ps ss. cs = ps @ sub @ ss"
      then obtain ps ss where "cs = ps @ sub @ ss" by blast
      then have "c # cs = (c # ps) @ sub @ ss" by simp
      then show ?thesis by blast
    qed
  qed
  ultimately show ?case using Cons.IH by simp
qed

subsection \<open>The two nested loops\<close>

lemma checkBindings_completes:
  "snd (checkBindings chk a bs) = None \<Longrightarrow>
   fst (checkBindings chk a bs) = concat (map (performs chk a) bs)"
  by (induction bs) (auto simp: performs_def split: sum.splits option.splits prod.splits bool.splits)

lemma checkBindings_completes_iff:
  "snd (checkBindings chk a bs) = None \<longleftrightarrow> (\<forall>b \<in> set bs. \<exists>r. chk b = Inr (Some r))"
  by (induction bs) (auto split: sum.splits option.splits prod.splits)

lemma checkActionsBindings_completes:
  "snd (checkActionsBindings chk as) = None \<Longrightarrow>
   fst (checkActionsBindings chk as) =
     concat (map (\<lambda>a. concat (map (performs chk a) (bindings a))) as)"
proof (induction as)
  case Nil
  then show ?case by simp
next
  case (Cons a as)
  obtain ds r where c: "checkBindings chk a (bindings a) = (ds, r)" by (cases "checkBindings chk a (bindings a)")
  obtain ds' r' where c': "checkActionsBindings chk as = (ds', r')" by (cases "checkActionsBindings chk as")
  from Cons.prems c c' have r: "r = None" "r' = None"
    by (auto split: option.splits)
  from checkBindings_completes [of chk a "bindings a"] c r
  have "ds = concat (map (performs chk a) (bindings a))" by simp
  moreover from Cons.IH c' r
  have "ds' = concat (map (\<lambda>a. concat (map (performs chk a) (bindings a))) as)" by simp
  ultimately show ?case using c c' r by simp
qed

lemma checkActionsBindings_completes_iff:
  "snd (checkActionsBindings chk as) = None \<longleftrightarrow>
   (\<forall>a \<in> set as. \<forall>b \<in> set (bindings a). \<exists>r. chk b = Inr (Some r))"
proof (induction as)
  case Nil
  then show ?case by simp
next
  case (Cons a as)
  obtain ds r where c: "checkBindings chk a (bindings a) = (ds, r)" by (cases "checkBindings chk a (bindings a)")
  obtain ds' r' where c': "checkActionsBindings chk as = (ds', r')" by (cases "checkActionsBindings chk as")
  from checkBindings_completes_iff [of chk a "bindings a"] c
  have "r = None \<longleftrightarrow> (\<forall>b \<in> set (bindings a). \<exists>r. chk b = Inr (Some r))" by simp
  then show ?case using Cons.IH c c' by (cases r) auto
qed

subsection \<open>The slot loop\<close>

text \<open>The callback for slot \<open>i\<close> reads the system at that slot only.\<close>

lemma gamepadCheckBinding_cong:
  "lastGamepad s' i = lastGamepad s i \<Longrightarrow> gamepadCheckBinding s' i g b = gamepadCheckBinding s i g b"
proof -
  assume h: "lastGamepad s' i = lastGamepad s i"
  then have "gamepadStateOf s' i g = gamepadStateOf s i g" by (simp add: gamepadStateOf_def)
  with h show ?thesis by (cases b) (simp_all split: option.splits)
qed

lemma updateGamepadFrom_past: "length gps < i \<Longrightarrow> updateGamepadFrom gps i s = noEffect s"
  by (simp add: updateGamepadFrom.simps)

lemma updateGamepadFrom_end: "updateGamepadFrom gps (length gps) s = noEffect s"
  by (simp add: updateGamepadFrom.simps [of gps "length gps"] elemAt_def updateGamepadFrom_past)

lemma updateGamepadFrom_dispatched:
  "failure (updateGamepadFrom gps i s') = None \<Longrightarrow>
   \<forall>j \<ge> i. lastGamepad s' j = lastGamepad s j \<Longrightarrow>
   actions s' = actions s \<Longrightarrow>
   dispatched (updateGamepadFrom gps i s') =
     concat (map (slotPerforms s) (concat (map (validSlot gps) [i..<length gps])))"
proof (induction gps i s' rule: updateGamepadFrom.induct)
  case (1 gps i s')
  show ?case
  proof (cases "i < length gps")
    case False
    then have "i = length gps \<or> length gps < i" by auto
    then show ?thesis
      using updateGamepadFrom_end [of gps s'] updateGamepadFrom_past [of gps i s']
      by (auto simp: noEffect_def)
  next
    case True
    then have upt: "[i..<length gps] = i # [Suc i..<length gps]" by (simp add: upt_conv_Cons)
    have le: "i \<le> length gps" using True by simp
    show ?thesis
    proof (cases "gps ! i")
      case None
      then have e: "elemAt gps i = Some None" using True by (simp add: elemAt_def)
      have u: "updateGamepadFrom gps i s' = updateGamepadFrom gps (Suc i) s'"
        using e le by (simp add: updateGamepadFrom.simps [of gps i])
      have "dispatched (updateGamepadFrom gps (Suc i) s') =
            concat (map (slotPerforms s) (concat (map (validSlot gps) [Suc i..<length gps])))"
        using "1.IH"(2) [OF le e] "1.prems" u by simp
      moreover have "validSlot gps i = []" using e by (simp add: validSlot_def)
      ultimately show ?thesis using u upt by simp
    next
      case (Some g)
      then have e: "elemAt gps i = Some (Some g)" using True by (simp add: elemAt_def)
      show ?thesis
      proof (cases "isInvalidGamepad g")
        case True
        have u: "updateGamepadFrom gps i s' = updateGamepadFrom gps (Suc i) s'"
          using e le True by (simp add: updateGamepadFrom.simps [of gps i])
        have "dispatched (updateGamepadFrom gps (Suc i) s') =
              concat (map (slotPerforms s) (concat (map (validSlot gps) [Suc i..<length gps])))"
          using "1.IH"(3) [OF le e refl True] "1.prems" u by simp
        moreover have "validSlot gps i = []" using e True by (simp add: validSlot_def)
        ultimately show ?thesis using u upt by simp
      next
        case False
        obtain ds r where c: "checkActionsBindings (gamepadCheckBinding s' i g) (actions s') = (ds, r)"
          by (cases "checkActionsBindings (gamepadCheckBinding s' i g) (actions s')")
        have r: "r = None"
        proof (cases r)
          case None then show ?thesis .
        next
          case (Some err)
          then have "failure (updateGamepadFrom gps i s') = Some err"
            using e le False c by (simp add: updateGamepadFrom.simps [of gps i])
          with "1.prems"(1) show ?thesis by simp
        qed
        let ?s'' = "s'\<lparr>lastTimestamp := (lastTimestamp s')(i \<mapsto> timestamp g),
                          lastGamepad := (lastGamepad s')(i \<mapsto> g)\<rparr>"
        have u: "updateGamepadFrom gps i s' =
                 (updateGamepadFrom gps (Suc i) ?s'')\<lparr>dispatched := ds @ dispatched (updateGamepadFrom gps (Suc i) ?s'')\<rparr>"
          using e le False c r by (simp add: updateGamepadFrom.simps [of gps i] Let_def)
        have f: "failure (updateGamepadFrom gps (Suc i) ?s'') = None"
          using "1.prems"(1) u by simp
        have h: "\<forall>j \<ge> Suc i. lastGamepad ?s'' j = lastGamepad s j"
          using "1.prems"(2) by simp
        have ih: "dispatched (updateGamepadFrom gps (Suc i) ?s'') =
              concat (map (slotPerforms s) (concat (map (validSlot gps) [Suc i..<length gps])))"
          using "1.IH"(4) [OF le e refl False c [symmetric] r f h] "1.prems"(3) by simp
        have eq: "gamepadCheckBinding s' i g = gamepadCheckBinding s i g"
          using gamepadCheckBinding_cong [of s' i s g] "1.prems"(2) by auto
        have "ds = slotPerforms s (i, g)"
          using checkActionsBindings_completes [of "gamepadCheckBinding s' i g" "actions s'"] c r eq "1.prems"(3)
          by (simp add: slotPerforms_def)
        moreover have "validSlot gps i = [(i, g)]" using e False by (simp add: validSlot_def)
        ultimately show ?thesis using u ih upt by simp
      qed
    qed
  qed
qed


lemma updateGamepadFrom_step_skip:
  "i < length gps \<Longrightarrow> validSlot gps i = [] \<Longrightarrow>
   updateGamepadFrom gps i s = updateGamepadFrom gps (Suc i) s"
  by (simp add: updateGamepadFrom.simps [of gps i] validSlot_def elemAt_def
           split: option.splits if_splits)

lemma updateGamepadFrom_step_valid:
  "i < length gps \<Longrightarrow> validSlot gps i = [(i, g)] \<Longrightarrow>
   updateGamepadFrom gps i s =
     (case checkActionsBindings (gamepadCheckBinding s i g) (actions s) of
        (ds, Some e) \<Rightarrow> \<lparr>dispatched = ds, system = s, failure = Some e, frameRequests = 0\<rparr>
      | (ds, None) \<Rightarrow>
          (let out = updateGamepadFrom gps (Suc i)
                       (s\<lparr>lastTimestamp := (lastTimestamp s)(i \<mapsto> timestamp g),
                          lastGamepad := (lastGamepad s)(i \<mapsto> g)\<rparr>)
           in out\<lparr>dispatched := ds @ dispatched out\<rparr>))"
  by (simp add: updateGamepadFrom.simps [of gps i] validSlot_def elemAt_def
           split: option.splits if_splits)

lemma validSlot_cases:
  "validSlot gps i = [] \<or> (\<exists>g. validSlot gps i = [(i, g)] \<and> i < length gps \<and> gps ! i = Some g \<and> \<not> isInvalidGamepad g)"
  by (auto simp: validSlot_def elemAt_def split: option.splits)

text \<open>What a frame pass writes, whether it completes or not.\<close>

lemma updateGamepadFrom_history:
  "lastGamepad (system (updateGamepadFrom gps i s)) j \<noteq> lastGamepad s j \<or>
   lastTimestamp (system (updateGamepadFrom gps i s)) j \<noteq> lastTimestamp s j \<Longrightarrow>
   i \<le> j \<and> j < length gps \<and> (\<exists>g. gps ! j = Some g \<and> \<not> isInvalidGamepad g)"
proof (induction gps i s rule: updateGamepadFrom.induct)
  case (1 gps i s)
  show ?case
  proof (cases "i < length gps")
    case False
    then have "i = length gps \<or> length gps < i" by auto
    then have "updateGamepadFrom gps i s = noEffect s"
      using updateGamepadFrom_end [of gps s] updateGamepadFrom_past [of gps i s] by auto
    with "1.prems" show ?thesis by (simp add: noEffect_def)
  next
    case True
    then have le: "i \<le> length gps" by simp
    from validSlot_cases [of gps i] show ?thesis
    proof
      assume v: "validSlot gps i = []"
      then have u: "updateGamepadFrom gps i s = updateGamepadFrom gps (Suc i) s"
        using True by (rule updateGamepadFrom_step_skip [rotated])
      have "Suc i \<le> j \<and> j < length gps \<and> (\<exists>g. gps ! j = Some g \<and> \<not> isInvalidGamepad g)"
      proof (cases "gps ! i")
        case None
        then have e: "elemAt gps i = Some None" using True by (simp add: elemAt_def)
        show ?thesis using "1.IH"(2) [OF le e] "1.prems" u by simp
      next
        case (Some g)
        then have e: "elemAt gps i = Some (Some g)" using True by (simp add: elemAt_def)
        with v have inv: "isInvalidGamepad g" by (simp add: validSlot_def split: if_splits)
        show ?thesis using "1.IH"(3) [OF le e refl inv] "1.prems" u by simp
      qed
      then show ?thesis by simp
    next
      assume "\<exists>g. validSlot gps i = [(i, g)] \<and> i < length gps \<and> gps ! i = Some g \<and> \<not> isInvalidGamepad g"
      then obtain g where v: "validSlot gps i = [(i, g)]" and g: "gps ! i = Some g"
        and ok: "\<not> isInvalidGamepad g" by blast
      have e: "elemAt gps i = Some (Some g)" using g True by (simp add: elemAt_def)
      obtain ds r where c: "checkActionsBindings (gamepadCheckBinding s i g) (actions s) = (ds, r)"
        by (cases "checkActionsBindings (gamepadCheckBinding s i g) (actions s)")
      show ?thesis
      proof (cases r)
        case (Some err)
        then have "system (updateGamepadFrom gps i s) = s"
          using updateGamepadFrom_step_valid [OF True v, of s] c by simp
        with "1.prems" show ?thesis by simp
      next
        case None
        let ?s' = "s\<lparr>lastTimestamp := (lastTimestamp s)(i \<mapsto> timestamp g),
                       lastGamepad := (lastGamepad s)(i \<mapsto> g)\<rparr>"
        have u: "system (updateGamepadFrom gps i s) = system (updateGamepadFrom gps (Suc i) ?s')"
          using updateGamepadFrom_step_valid [OF True v, of s] c None by (simp add: Let_def)
        show ?thesis
        proof (cases "j = i")
          case True
          then show ?thesis using \<open>i < length gps\<close> g ok by auto
        next
          case False
          then have "lastGamepad ?s' j = lastGamepad s j" "lastTimestamp ?s' j = lastTimestamp s j"
            by simp_all
          then have "Suc i \<le> j \<and> j < length gps \<and> (\<exists>g. gps ! j = Some g \<and> \<not> isInvalidGamepad g)"
            using "1.IH"(4) [OF le e refl ok c [symmetric] None] "1.prems" u by simp
          then show ?thesis by simp
        qed
      qed
    qed
  qed
qed


lemma updateGamepadFrom_done: "length gps \<le> i \<Longrightarrow> updateGamepadFrom gps i s = noEffect s"
  using updateGamepadFrom_end [of gps s] updateGamepadFrom_past [of gps i s]
  by (cases "i = length gps") auto

lemma updateGamepadFrom_frame:
  "isRunning (system (updateGamepadFrom gps i s)) = isRunning s \<and>
   actions (system (updateGamepadFrom gps i s)) = actions s \<and>
   isBrowserSupported (system (updateGamepadFrom gps i s)) = isBrowserSupported s \<and>
   frameRequests (updateGamepadFrom gps i s) = 0"
proof (induction "length gps - i" arbitrary: i s)
  case 0
  then show ?case by (simp add: updateGamepadFrom_done noEffect_def)
next
  case (Suc n)
  then have lt: "i < length gps" and n: "n = length gps - Suc i" by auto
  from validSlot_cases [of gps i] show ?case
  proof
    assume "validSlot gps i = []"
    then show ?thesis
      using updateGamepadFrom_step_skip [OF lt, of s] Suc.hyps(1) [OF n, of s] by simp
  next
    assume "\<exists>g. validSlot gps i = [(i, g)] \<and> i < length gps \<and> gps ! i = Some g \<and> \<not> isInvalidGamepad g"
    then obtain g where v: "validSlot gps i = [(i, g)]" by blast
    obtain ds r where c: "checkActionsBindings (gamepadCheckBinding s i g) (actions s) = (ds, r)"
      by (cases "checkActionsBindings (gamepadCheckBinding s i g) (actions s)")
    show ?thesis
      using updateGamepadFrom_step_valid [OF lt v, of s] c
        Suc.hyps(1) [OF n, of "s\<lparr>lastTimestamp := (lastTimestamp s)(i \<mapsto> timestamp g),
                       lastGamepad := (lastGamepad s)(i \<mapsto> g)\<rparr>"]
      by (cases r) (simp_all add: Let_def)
  qed
qed

text \<open>A pass that completes has stored the sample of every valid slot from \<open>i\<close> on.\<close>

lemma updateGamepadFrom_stored:
  "failure (updateGamepadFrom gps i s) = None \<Longrightarrow> i \<le> j \<Longrightarrow> validSlot gps j = [(j, g)] \<Longrightarrow>
   lastGamepad (system (updateGamepadFrom gps i s)) j = Some g \<and>
   lastTimestamp (system (updateGamepadFrom gps i s)) j = Some (timestamp g)"
proof (induction "length gps - i" arbitrary: i s)
  case 0
  then have "length gps \<le> j" by simp
  then have "validSlot gps j = []" by (simp add: validSlot_def elemAt_def)
  with 0 show ?case by simp
next
  case (Suc n)
  then have lt: "i < length gps" and n: "n = length gps - Suc i" by auto
  from validSlot_cases [of gps i] show ?case
  proof
    assume v: "validSlot gps i = []"
    with Suc.prems have "Suc i \<le> j" by (cases "i = j") auto
    then show ?thesis
      using updateGamepadFrom_step_skip [OF lt v, of s] Suc.hyps(1) [OF n, of s] Suc.prems by simp
  next
    assume "\<exists>g. validSlot gps i = [(i, g)] \<and> i < length gps \<and> gps ! i = Some g \<and> \<not> isInvalidGamepad g"
    then obtain g' where v: "validSlot gps i = [(i, g')]" by blast
    obtain ds r where c: "checkActionsBindings (gamepadCheckBinding s i g') (actions s) = (ds, r)"
      by (cases "checkActionsBindings (gamepadCheckBinding s i g') (actions s)")
    let ?s' = "s\<lparr>lastTimestamp := (lastTimestamp s)(i \<mapsto> timestamp g'),
                   lastGamepad := (lastGamepad s)(i \<mapsto> g')\<rparr>"
    have r: "r = None"
      using updateGamepadFrom_step_valid [OF lt v, of s] c Suc.prems(1) by (cases r) simp_all
    have u: "system (updateGamepadFrom gps i s) = system (updateGamepadFrom gps (Suc i) ?s')"
      "failure (updateGamepadFrom gps i s) = failure (updateGamepadFrom gps (Suc i) ?s')"
      using updateGamepadFrom_step_valid [OF lt v, of s] c r by (simp_all add: Let_def)
    show ?thesis
    proof (cases "i = j")
      case False
      then have "Suc i \<le> j" using Suc.prems(2) by simp
      then show ?thesis using Suc.hyps(1) [OF n, of ?s'] Suc.prems u by simp
    next
      case True
      then have g: "g' = g" using v Suc.prems(3) by simp
      have "\<not> (Suc i \<le> j)" using True by simp
      then have "lastGamepad (system (updateGamepadFrom gps (Suc i) ?s')) j = lastGamepad ?s' j"
        "lastTimestamp (system (updateGamepadFrom gps (Suc i) ?s')) j = lastTimestamp ?s' j"
        using updateGamepadFrom_history [of gps "Suc i" ?s' j] by blast+
      then show ?thesis using u True g by simp
    qed
  qed
qed

text \<open>When a pass completes.\<close>

lemma updateGamepadFrom_failure:
  "\<forall>j \<ge> i. lastGamepad s' j = lastGamepad s j \<Longrightarrow> actions s' = actions s \<Longrightarrow>
   failure (updateGamepadFrom gps i s') = None \<longleftrightarrow>
   (\<forall>ig \<in> set (concat (map (validSlot gps) [i..<length gps])).
      snd (checkActionsBindings (gamepadCheckBinding s (fst ig) (snd ig)) (actions s)) = None)"
proof (induction "length gps - i" arbitrary: i s')
  case 0
  then show ?case by (simp add: updateGamepadFrom_done noEffect_def)
next
  case (Suc n)
  then have lt: "i < length gps" and n: "n = length gps - Suc i" by auto
  have upt: "[i..<length gps] = i # [Suc i..<length gps]" using lt by (simp add: upt_conv_Cons)
  from validSlot_cases [of gps i] show ?case
  proof
    assume v: "validSlot gps i = []"
    show ?thesis
      using updateGamepadFrom_step_skip [OF lt v, of s'] Suc.hyps(1) [OF n, of s'] Suc.prems upt v
      by simp
  next
    assume "\<exists>g. validSlot gps i = [(i, g)] \<and> i < length gps \<and> gps ! i = Some g \<and> \<not> isInvalidGamepad g"
    then obtain g where v: "validSlot gps i = [(i, g)]" by blast
    have eq: "gamepadCheckBinding s' i g = gamepadCheckBinding s i g"
      using gamepadCheckBinding_cong [of s' i s g] Suc.prems(1) by auto
    obtain ds r where c: "checkActionsBindings (gamepadCheckBinding s i g) (actions s) = (ds, r)"
      by (cases "checkActionsBindings (gamepadCheckBinding s i g) (actions s)")
    let ?s'' = "s'\<lparr>lastTimestamp := (lastTimestamp s')(i \<mapsto> timestamp g),
                     lastGamepad := (lastGamepad s')(i \<mapsto> g)\<rparr>"
    show ?thesis
    proof (cases r)
      case (Some err)
      then have "failure (updateGamepadFrom gps i s') = Some err"
        using updateGamepadFrom_step_valid [OF lt v, of s'] c eq Suc.prems(2) by simp
      then show ?thesis using upt v c Some by simp
    next
      case None
      have "failure (updateGamepadFrom gps i s') = failure (updateGamepadFrom gps (Suc i) ?s'')"
        using updateGamepadFrom_step_valid [OF lt v, of s'] c eq Suc.prems(2) None
        by (simp add: Let_def)
      moreover have "\<forall>j \<ge> Suc i. lastGamepad ?s'' j = lastGamepad s j" using Suc.prems(1) by simp
      ultimately show ?thesis
        using Suc.hyps(1) [OF n, of ?s''] Suc.prems(2) upt v c None by simp
    qed
  qed
qed


subsection \<open>One frame pass\<close>

lemma updateGamepad_dispatched:
  "failure (updateGamepad s gps) = None \<Longrightarrow>
   dispatched (updateGamepad s gps) = concat (map (slotPerforms s) (validSlots gps))"
  using updateGamepadFrom_dispatched [of gps 0 s s] by (simp add: updateGamepad_def validSlots_def)

lemma filter_concat_map:
  "filter P (concat (map f xs)) = concat (map (\<lambda>x. filter P (f x)) xs)"
  by (induction xs) simp_all

lemma updateGamepad_filtered:
  assumes "failure (updateGamepad s gps) = None"
    and "\<And>i g a b. filter (P \<circ> snd) (performs (gamepadCheckBinding s i g) a b) = rule s (i, g) a b"
  shows "filter (P \<circ> snd) (dispatched (updateGamepad s gps)) = expectedDispatches rule s gps"
proof -
  have "\<And>ig. filter (P \<circ> snd) (slotPerforms s ig) =
      concat (map (\<lambda>a. concat (map (rule s ig a) (bindings a))) (actions s))"
  proof -
    fix ig :: "nat \<times> Gamepad"
    obtain i g where ig: "ig = (i, g)" by (cases ig)
    show "filter (P \<circ> snd) (slotPerforms s ig) =
      concat (map (\<lambda>a. concat (map (rule s ig a) (bindings a))) (actions s))"
      unfolding slotPerforms_def ig by (simp add: filter_concat_map assms(2))
  qed
  then show ?thesis
    unfolding expectedDispatches_def updateGamepad_dispatched [OF assms(1)]
    by (simp add: filter_concat_map)
qed




lemma performs_plain:
  "filter (isGamepadContext \<circ> snd) (performs (gamepadCheckBinding s i g) a b) = plainDevice s (i, g) a b"
  by (cases b) (simp_all add: performs_def emptyCtx_def split: option.splits)

lemma performs_special:
  "filter (isSpaceMouseContext \<circ> snd) (performs (gamepadCheckBinding s i g) a b) = specialDevice s (i, g) a b"
  by (cases b) (simp_all add: performs_def emptyCtx_def split: option.splits)

lemma updateGamepad_single:
  "\<not> isInvalidGamepad g \<Longrightarrow>
   updateGamepad s [Some g] =
     (case checkActionsBindings (gamepadCheckBinding s 0 g) (actions s) of
        (ds, Some e) \<Rightarrow> \<lparr>dispatched = ds, system = s, failure = Some e, frameRequests = 0\<rparr>
      | (ds, None) \<Rightarrow>
          \<lparr>dispatched = ds,
           system = s\<lparr>lastTimestamp := (lastTimestamp s)(0 \<mapsto> timestamp g),
                      lastGamepad := (lastGamepad s)(0 \<mapsto> g)\<rparr>,
           failure = None, frameRequests = 0\<rparr>)"
proof -
  assume ok: "\<not> isInvalidGamepad g"
  have v: "validSlot [Some g] 0 = [(0, g)]" using ok by (simp add: validSlot_def elemAt_def)
  have d: "\<And>s'. updateGamepadFrom [Some g] (Suc 0) s' = noEffect s'"
    using updateGamepadFrom_done [of "[Some g]" "Suc 0"] by simp
  show ?thesis
    unfolding updateGamepad_def
    using updateGamepadFrom_step_valid [of 0 "[Some g]" g s, OF _ v]
    by (simp add: d noEffect_def Let_def split: prod.splits option.splits)
qed

lemma updateGamepad_stored:
  "failure (updateGamepad s gps) = None \<Longrightarrow> (j, g) \<in> set (validSlots gps) \<Longrightarrow>
   lastGamepad (system (updateGamepad s gps)) j = Some g"
proof -
  assume f: "failure (updateGamepad s gps) = None" and m: "(j, g) \<in> set (validSlots gps)"
  from m obtain i where "(j, g) \<in> set (validSlot gps i)" by (auto simp: validSlots_def)
  then have "validSlot gps j = [(j, g)]"
    using validSlot_cases [of gps i] by auto
  then show ?thesis
    using updateGamepadFrom_stored [of gps 0 s j g] f by (simp add: updateGamepad_def)
qed

lemma running_simps:
  "isRunning (running acts)" "actions (running acts) = acts"
  "lastGamepad (running acts) = Map.empty" "isBrowserSupported (running acts)"
  by (simp_all add: running_def constructor_def)



subsection \<open>Where dispatches come from\<close>

lemma checkBindings_sub:
  "(a', ctx) \<in> set (fst (checkBindings chk a bs)) \<Longrightarrow>
   a' = a \<and> (\<exists>b \<in> set bs. chk b = Inr (Some (True, ctx)))"
  by (induction bs) (auto split: sum.splits option.splits prod.splits if_splits)

lemma checkActionsBindings_sub:
  "(a, ctx) \<in> set (fst (checkActionsBindings chk as)) \<Longrightarrow>
   a \<in> set as \<and> (\<exists>b \<in> set (bindings a). chk b = Inr (Some (True, ctx)))"
proof (induction as)
  case Nil
  then show ?case by simp
next
  case (Cons x as)
  obtain ds r where c: "checkBindings chk x (bindings x) = (ds, r)" by (cases "checkBindings chk x (bindings x)")
  obtain ds' r' where c': "checkActionsBindings chk as = (ds', r')" by (cases "checkActionsBindings chk as")
  from Cons.prems c c' have "(a, ctx) \<in> set ds \<or> (a, ctx) \<in> set ds'"
    by (cases r) auto
  then show ?case
  proof
    assume "(a, ctx) \<in> set ds"
    then show ?thesis using checkBindings_sub [of a ctx chk x "bindings x"] c by auto
  next
    assume "(a, ctx) \<in> set ds'"
    then show ?thesis using Cons.IH c' by auto
  qed
qed

text \<open>Every dispatch of a frame pass, complete or not, comes from a valid slot in range.\<close>

lemma updateGamepadFrom_sub:
  "(a, ctx) \<in> set (dispatched (updateGamepadFrom gps i s')) \<Longrightarrow>
   \<forall>j \<ge> i. lastGamepad s' j = lastGamepad s j \<Longrightarrow> actions s' = actions s \<Longrightarrow>
   \<exists>j g b. i \<le> j \<and> j < length gps \<and> gps ! j = Some g \<and> \<not> isInvalidGamepad g \<and>
     a \<in> set (actions s) \<and> b \<in> set (bindings a) \<and>
     gamepadCheckBinding s j g b = Inr (Some (True, ctx))"
proof (induction "length gps - i" arbitrary: i s')
  case 0
  then show ?case by (simp add: updateGamepadFrom_done noEffect_def)
next
  case (Suc n)
  then have lt: "i < length gps" and n: "n = length gps - Suc i" by auto
  from validSlot_cases [of gps i] show ?case
  proof
    assume v: "validSlot gps i = []"
    have "\<exists>j g b. Suc i \<le> j \<and> j < length gps \<and> gps ! j = Some g \<and> \<not> isInvalidGamepad g \<and>
       a \<in> set (actions s) \<and> b \<in> set (bindings a) \<and>
       gamepadCheckBinding s j g b = Inr (Some (True, ctx))"
      using updateGamepadFrom_step_skip [OF lt v, of s'] Suc.hyps(1) [OF n, of s'] Suc.prems
      by simp
    then show ?thesis using Suc_leD by blast
  next
    assume "\<exists>g. validSlot gps i = [(i, g)] \<and> i < length gps \<and> gps ! i = Some g \<and> \<not> isInvalidGamepad g"
    then obtain g where v: "validSlot gps i = [(i, g)]" and g: "gps ! i = Some g"
      and ok: "\<not> isInvalidGamepad g" by blast
    have eq: "gamepadCheckBinding s' i g = gamepadCheckBinding s i g"
      using gamepadCheckBinding_cong [of s' i s g] Suc.prems(2) by auto
    obtain ds r where c: "checkActionsBindings (gamepadCheckBinding s i g) (actions s) = (ds, r)"
      by (cases "checkActionsBindings (gamepadCheckBinding s i g) (actions s)")
    let ?s'' = "s'\<lparr>lastTimestamp := (lastTimestamp s')(i \<mapsto> timestamp g),
                     lastGamepad := (lastGamepad s')(i \<mapsto> g)\<rparr>"
    have here: "(a, ctx) \<in> set ds \<Longrightarrow> ?thesis"
    proof -
      assume "(a, ctx) \<in> set ds"
      then have "a \<in> set (actions s) \<and> (\<exists>b \<in> set (bindings a). gamepadCheckBinding s i g b = Inr (Some (True, ctx)))"
        using checkActionsBindings_sub [of a ctx "gamepadCheckBinding s i g" "actions s"] c by simp
      then show ?thesis using lt g ok by blast
    qed
    show ?thesis
    proof (cases r)
      case (Some err)
      then have "dispatched (updateGamepadFrom gps i s') = ds"
        using updateGamepadFrom_step_valid [OF lt v, of s'] c eq Suc.prems(3) by simp
      then show ?thesis using here Suc.prems(1) by simp
    next
      case None
      have "dispatched (updateGamepadFrom gps i s') = ds @ dispatched (updateGamepadFrom gps (Suc i) ?s'')"
        using updateGamepadFrom_step_valid [OF lt v, of s'] c eq Suc.prems(3) None
        by (simp add: Let_def)
      then have "(a, ctx) \<in> set ds \<or> (a, ctx) \<in> set (dispatched (updateGamepadFrom gps (Suc i) ?s''))"
        using Suc.prems(1) by auto
      then show ?thesis
      proof
        assume "(a, ctx) \<in> set ds"
        then show ?thesis by (rule here)
      next
        assume m: "(a, ctx) \<in> set (dispatched (updateGamepadFrom gps (Suc i) ?s''))"
        have "\<forall>j \<ge> Suc i. lastGamepad ?s'' j = lastGamepad s j" using Suc.prems(2) by simp
        then have "\<exists>j g b. Suc i \<le> j \<and> j < length gps \<and> gps ! j = Some g \<and> \<not> isInvalidGamepad g \<and>
           a \<in> set (actions s) \<and> b \<in> set (bindings a) \<and>
           gamepadCheckBinding s j g b = Inr (Some (True, ctx))"
          using Suc.hyps(1) [OF n, of ?s''] m Suc.prems(3) by simp
        then show ?thesis using Suc_leD by blast
      qed
    qed
  qed
qed

lemma updateGamepad_sub:
  "(a, ctx) \<in> set (dispatched (updateGamepad s gps)) \<Longrightarrow>
   \<exists>j g b. j < length gps \<and> gps ! j = Some g \<and> \<not> isInvalidGamepad g \<and>
     a \<in> set (actions s) \<and> b \<in> set (bindings a) \<and>
     gamepadCheckBinding s j g b = Inr (Some (True, ctx))"
  using updateGamepadFrom_sub [of a ctx gps 0 s s] unfolding updateGamepad_def by blast

subsection \<open>Keyboard handlers\<close>

lemma gamepadCheckBinding_not_keyboard:
  "gamepadCheckBinding s j g b \<noteq> Inr (Some (True, KeyboardContext))"
  by (cases b) (simp_all split: option.splits)

lemma keyDown_bindings:
  "checkBindings (keyDownCheckBinding c) a bs =
     (map (\<lambda>b. (a, KeyboardContext)) (filter (matchesKey True c) bs), None)"
proof (induction bs)
  case Nil
  then show ?case by simp
next
  case (Cons b bs)
  then show ?case by (cases b) (auto simp: keyboardCtx_def emptyCtx_def)
qed

lemma keyUp_bindings:
  "checkBindings (keyUpCheckBinding c) a bs =
     (map (\<lambda>b. (a, KeyboardContext)) (filter (matchesKey False c) bs), None)"
proof (induction bs)
  case Nil
  then show ?case by simp
next
  case (Cons b bs)
  then show ?case by (cases b) (auto simp: keyboardCtx_def emptyCtx_def)
qed

lemma keyDown_actions:
  "checkActionsBindings (keyDownCheckBinding c) acts = (keyDispatches True c acts, None)"
  by (induction acts) (simp_all add: keyDispatches_def keyDown_bindings)

lemma keyUp_actions:
  "checkActionsBindings (keyUpCheckBinding c) acts = (keyDispatches False c acts, None)"
  by (induction acts) (simp_all add: keyDispatches_def keyUp_bindings)

lemma matchesKey_iff: "matchesKey down c b \<longleftrightarrow> b = KeyboardBinding c down"
  by (cases b) auto

lemma keyDispatches_actions:
  "fst ` set (keyDispatches down c acts) =
     {a \<in> set acts. KeyboardBinding c down \<in> set (bindings a)}"
  by (auto simp: keyDispatches_def matchesKey_iff image_iff)

lemma keyDispatches_ctx: "d \<in> set (keyDispatches down c acts) \<Longrightarrow> snd d = KeyboardContext"
  by (auto simp: keyDispatches_def)

subsection \<open>Device kinds, empty frames, failures\<close>

lemma device_rules:
  "str_includes (gamepad_id g) ''SpaceMouse'' \<Longrightarrow>
     gamepadCheckBinding s i g GamepadBinding = Inr (Some (False, emptyCtx)) \<and>
     gamepadCheckBinding s i g SpaceMouseBinding =
       Inr (Some (True, SpaceMouseContext (gamepad_id g) (gamepadStateOf s i g) (axes g) (buttons g)))"
  "\<not> str_includes (gamepad_id g) ''SpaceMouse'' \<Longrightarrow>
     gamepadCheckBinding s i g GamepadBinding =
       Inr (Some (True, GamepadContext (gamepad_id g) (gamepadStateOf s i g))) \<and>
     gamepadCheckBinding s i g SpaceMouseBinding = Inr (Some (False, emptyCtx))"
  by simp_all

lemma updateGamepadFrom_nothing:
  "\<forall>j. i \<le> j \<and> j < length gps \<longrightarrow> validSlot gps j = [] \<Longrightarrow>
   updateGamepadFrom gps i s = noEffect s"
proof (induction "length gps - i" arbitrary: i)
  case 0
  then show ?case by (simp add: updateGamepadFrom_done)
next
  case (Suc n)
  then have lt: "i < length gps" and n: "n = length gps - Suc i" by auto
  have v: "validSlot gps i = []" using Suc.prems lt by simp
  have "\<forall>j. Suc i \<le> j \<and> j < length gps \<longrightarrow> validSlot gps j = []" using Suc.prems by simp
  then show ?case
    using updateGamepadFrom_step_skip [OF lt v, of s] Suc.hyps(1) [OF n] by simp
qed

lemma updateGamepad_nothing: "validSlots gps = [] \<Longrightarrow> updateGamepad s gps = noEffect s"
  unfolding updateGamepad_def
  by (rule updateGamepadFrom_nothing) (auto simp: validSlots_def)

lemma updateGamepad_history:
  "lastGamepad (system (updateGamepad s gps)) j \<noteq> lastGamepad s j \<or>
   lastTimestamp (system (updateGamepad s gps)) j \<noteq> lastTimestamp s j \<Longrightarrow>
   j < length gps \<and> (\<exists>g. gps ! j = Some g \<and> \<not> isInvalidGamepad g)"
  using updateGamepadFrom_history [of gps 0 s j] by (simp add: updateGamepad_def)

lemma fresh_simps:
  "\<not> isRunning (fst (constructor acts True))" "actions (fst (constructor acts True)) = acts"
  "lastGamepad (fst (constructor acts True)) = Map.empty"
  "isBrowserSupported (fst (constructor acts True))"
  "\<not> isBrowserSupported (fst (constructor acts False))"
  by (simp_all add: constructor_def)

lemma updateGamepad_failure:
  "failure (updateGamepad s gps) = None \<longleftrightarrow>
   (\<forall>ig \<in> set (validSlots gps). \<forall>a \<in> set (actions s). \<forall>b \<in> set (bindings a).
      \<exists>r. gamepadCheckBinding s (fst ig) (snd ig) b = Inr (Some r))"
  using updateGamepadFrom_failure [of 0 s s gps]
  by (simp add: updateGamepad_def validSlots_def checkActionsBindings_completes_iff)

lemma failure_TypeError: "failure out \<noteq> None \<Longrightarrow> failure out = Some TypeError"
  by (cases "failure out") (auto intro: error.exhaust)

subsection \<open>Starting\<close>

lemma updateGamepad_frame:
  "isRunning (system (updateGamepad s gps)) = isRunning s"
  "isBrowserSupported (system (updateGamepad s gps)) = isBrowserSupported s"
  "actions (system (updateGamepad s gps)) = actions s"
  "frameRequests (updateGamepad s gps) = 0"
  using updateGamepadFrom_frame [of gps 0 s] by (simp_all add: updateGamepad_def)

lemma start_guard:
  "\<not> isBrowserSupported s \<or> isRunning s \<Longrightarrow> start s gps = noEffect s"
  by (auto simp: start_def)

lemma start_fresh:
  assumes "isBrowserSupported s" "\<not> isRunning s"
  shows "isRunning (system (start s gps))"
    and "isBrowserSupported (system (start s gps))"
    and "dispatched (start s gps) = dispatched (updateGamepad (s\<lparr>isRunning := True\<rparr>) gps)"
    and "failure (start s gps) = failure (updateGamepad (s\<lparr>isRunning := True\<rparr>) gps)"
    and "lastGamepad (system (start s gps)) =
           lastGamepad (system (updateGamepad (s\<lparr>isRunning := True\<rparr>) gps))"
    and "frameRequests (start s gps) = (if failure (start s gps) = None then 1 else 0)"
  using assms by (simp_all add: start_def update_def Let_def updateGamepad_frame)

lemma start_again: "start (system (start s gps)) gps' = noEffect (system (start s gps))"
proof (cases "isBrowserSupported s \<and> \<not> isRunning s")
  case True
  then have "isRunning (system (start s gps))" using start_fresh(1) by blast
  then show ?thesis by (simp add: start_guard)
next
  case False
  then have "start s gps = noEffect s" using start_guard by blast
  then show ?thesis using False by (auto simp: start_guard noEffect_def)
qed

section \<open>Properties of the store\<close>

lemma foldl_mutate_axes:
  "r \<noteq> live_axes dev \<Longrightarrow> axesArrays (foldl (mutate dev) st ms) r = axesArrays st r"
proof (induction ms arbitrary: st)
  case Nil
  then show ?case by simp
next
  case (Cons m ms)
  then show ?case by (cases m) simp_all
qed

lemma foldl_mutate_buttons:
  "r \<noteq> live_buttons dev \<Longrightarrow> buttonArrays (foldl (mutate dev) st ms) r = buttonArrays st r"
proof (induction ms arbitrary: st)
  case Nil
  then show ?case by simp
next
  case (Cons m ms)
  then show ?case by (cases m) simp_all
qed

lemma foldl_mutate_objects:
  "\<forall>m \<in> set ms. \<forall>p v. m \<noteq> SetButtonObject r p v \<Longrightarrow>
   buttonObjects (foldl (mutate dev) st ms) r = buttonObjects st r"
proof (induction ms arbitrary: st)
  case Nil
  then show ?case by simp
next
  case (Cons m ms)
  then show ?case by (cases m) auto
qed

lemma resolveButton_cong:
  "(\<And>r. b = RawObject r \<Longrightarrow> buttonObjects st' r = buttonObjects st r) \<Longrightarrow>
   resolveButton st' b = resolveButton st b"
  by (cases b) simp_all

lemma spacemouseArrays_Some:
  assumes "axesArrays st (live_axes dev) = Some xs" "buttonArrays st (live_buttons dev) = Some bs"
  shows "spacemouseArrays st dev =
     Some (\<lparr>ctx_axes = nextRef st, ctx_buttons = Suc (nextRef st)\<rparr>,
           st\<lparr>axesArrays := (axesArrays st)(nextRef st \<mapsto> xs),
              buttonArrays := (buttonArrays st)(Suc (nextRef st) \<mapsto> bs),
              nextRef := Suc (Suc (nextRef st))\<rparr>)"
  using assms by (simp add: spacemouseArrays_def spreadAxes_def spreadButtons_def)

lemma spacemouseArrays_None:
  "axesArrays st (live_axes dev) = None \<or> buttonArrays st (live_buttons dev) = None \<Longrightarrow>
   spacemouseArrays st dev = None"
  by (auto simp: spacemouseArrays_def spreadAxes_def spreadButtons_def split: option.splits)

lemma contextReadsAfter_axes:
  assumes "live_axes dev < nextRef st" "live_buttons dev < nextRef st"
  shows "map_option fst (contextReadsAfter st dev ms) =
     (if axesArrays st (live_axes dev) = None \<or> buttonArrays st (live_buttons dev) = None then None
      else Some (axesArrays st (live_axes dev)))"
proof (cases "axesArrays st (live_axes dev) = None \<or> buttonArrays st (live_buttons dev) = None")
  case True
  then show ?thesis using spacemouseArrays_None [OF True] by (simp add: contextReadsAfter_def)
next
  case False
  then obtain xs bs where a: "axesArrays st (live_axes dev) = Some xs"
    "buttonArrays st (live_buttons dev) = Some bs" by auto
  have "nextRef st \<noteq> live_axes dev" using assms by simp
  then show ?thesis
    using False a
    by (simp add: contextReadsAfter_def spacemouseArrays_Some [OF a] readAxes_def
          foldl_mutate_axes Let_def)
qed

lemma contextReadsAfter_buttons:
  assumes "live_axes dev < nextRef st" "live_buttons dev < nextRef st"
    and "\<forall>m \<in> set ms. \<not> inPlace st dev m"
  shows "contextReadsAfter st dev ms =
     (if axesArrays st (live_axes dev) = None \<or> buttonArrays st (live_buttons dev) = None then None
      else Some (axesArrays st (live_axes dev), readButtons st (live_buttons dev)))"
proof (cases "axesArrays st (live_axes dev) = None \<or> buttonArrays st (live_buttons dev) = None")
  case True
  then show ?thesis using spacemouseArrays_None [OF True] by (simp add: contextReadsAfter_def)
next
  case False
  then obtain xs bs where a: "axesArrays st (live_axes dev) = Some xs"
    "buttonArrays st (live_buttons dev) = Some bs" by auto
  let ?st' = "st\<lparr>axesArrays := (axesArrays st)(nextRef st \<mapsto> xs),
              buttonArrays := (buttonArrays st)(Suc (nextRef st) \<mapsto> bs),
              nextRef := Suc (Suc (nextRef st))\<rparr>"
  let ?st'' = "foldl (mutate dev) ?st' ms"
  have na: "nextRef st \<noteq> live_axes dev" and nb: "Suc (nextRef st) \<noteq> live_buttons dev"
    using assms by simp_all
  have ax: "axesArrays ?st'' (nextRef st) = Some xs"
    using foldl_mutate_axes [OF na, of ?st' ms] by simp
  have bt: "buttonArrays ?st'' (Suc (nextRef st)) = Some bs"
    using foldl_mutate_buttons [OF nb, of ?st' ms] by simp
  have ob: "\<And>r. RawObject r \<in> set bs \<Longrightarrow> buttonObjects ?st'' r = buttonObjects st r"
  proof -
    fix r assume r: "RawObject r \<in> set bs"
    have "\<forall>m \<in> set ms. \<forall>p v. m \<noteq> SetButtonObject r p v"
    proof (intro ballI allI notI)
      fix m p v assume "m \<in> set ms" "m = SetButtonObject r p v"
      then have "inPlace st dev m" using a r by simp
      with assms(3) \<open>m \<in> set ms\<close> show False by blast
    qed
    then show "buttonObjects ?st'' r = buttonObjects st r"
      using foldl_mutate_objects [of ms r dev ?st'] by simp
  qed
  have "map (resolveButton ?st'') bs = map (resolveButton st) bs"
    by (rule map_cong [OF refl]) (rule resolveButton_cong, use ob in blast)
  then show ?thesis
    using False a ax bt
    by (simp add: contextReadsAfter_def spacemouseArrays_Some [OF a] readAxes_def readButtons_def
          Let_def)
qed

section \<open>Properties of frames on a host\<close>




























section \<open>The joy message: axis clamping\<close>

text \<open>
  C10. \<open>mapGamepadToJoy\<close> keeps the number of axes, sends every axis value
  strictly below 0.09 to 0.0, every negative value among them, and leaves every
  axis value of at least 0.09 as it is; a full negative deflection of -1.0 is
  reported as 0.0.
\<close>

theorem mapGamepadToJoy_axes:
  "length (joy_axes (fst (mapGamepadToJoy joySeqId now g))) = length (axes g) \<and>
   (\<forall>j < length (axes g).
      (axes g ! j < 0.09 \<longrightarrow> joy_axes (fst (mapGamepadToJoy joySeqId now g)) ! j = 0.0) \<and>
      (axes g ! j < 0 \<longrightarrow> joy_axes (fst (mapGamepadToJoy joySeqId now g)) ! j = 0.0) \<and>
      (axes g ! j \<ge> 0.09 \<longrightarrow> joy_axes (fst (mapGamepadToJoy joySeqId now g)) ! j = axes g ! j)) \<and>
   (axes g = [- 1.0] \<longrightarrow> joy_axes (fst (mapGamepadToJoy joySeqId now g)) = [0.0])"
  by (simp add: mapGamepadToJoy_def)

theorem mapGamepadToJoy_axes_witness:
  "(0::nat) < length (axes negPad) \<and> axes negPad ! 0 < 0 \<and> axes negPad ! 0 < 0.09 \<and>
   joy_axes (fst (mapGamepadToJoy 7 1500 negPad)) ! 0 = 0.0 \<and>
   (1::nat) < length (axes negPad) \<and> axes negPad ! 1 \<ge> 0.09 \<and>
   joy_axes (fst (mapGamepadToJoy 7 1500 negPad)) ! 1 = 0.5"
  using mapGamepadToJoy_axes [of 7 1500 negPad]
  by (simp add: negPad_def)


section \<open>Keyboard events\<close>

text \<open>
  C7. A key-down event performs, in order, one dispatch per keyboard binding
  with \<open>onKeyDown\<close> true and the event's code; a key-up event one per
  keyboard binding with \<open>onKeyDown\<close> false and the event's code; so the
  actions invoked are exactly those having such a binding. Every such dispatch
  carries the one keyboard context, neither handler fails or changes the
  system, and in a frame pass a keyboard binding never matches and no dispatch
  carries the keyboard context.
\<close>

theorem keyboard_edge_routing:
  "onKeyDown_handler s c =
     \<lparr>dispatched = keyDispatches True c (actions s), system = s, failure = None, frameRequests = 0\<rparr> \<and>
   onKeyUp_handler s c =
     \<lparr>dispatched = keyDispatches False c (actions s), system = s, failure = None, frameRequests = 0\<rparr> \<and>
   fst ` set (dispatched (onKeyDown_handler s c)) =
     {a \<in> set (actions s). KeyboardBinding c True \<in> set (bindings a)} \<and>
   fst ` set (dispatched (onKeyUp_handler s c)) =
     {a \<in> set (actions s). KeyboardBinding c False \<in> set (bindings a)} \<and>
   (\<forall>d \<in> set (dispatched (onKeyDown_handler s c)) \<union> set (dispatched (onKeyUp_handler s c)).
      snd d = keyboardCtx) \<and>
   gamepadCheckBinding s i g (KeyboardBinding c' down) = Inr (Some (False, emptyCtx)) \<and>
   (\<forall>d \<in> set (dispatched (updateGamepad s gps)). snd d \<noteq> keyboardCtx)"
proof -
  have d: "onKeyDown_handler s c =
     \<lparr>dispatched = keyDispatches True c (actions s), system = s, failure = None, frameRequests = 0\<rparr>"
    by (simp add: onKeyDown_handler_def keyDown_actions)
  have u: "onKeyUp_handler s c =
     \<lparr>dispatched = keyDispatches False c (actions s), system = s, failure = None, frameRequests = 0\<rparr>"
    by (simp add: onKeyUp_handler_def keyUp_actions)
  have k: "\<forall>d \<in> set (dispatched (updateGamepad s gps)). snd d \<noteq> keyboardCtx"
  proof
    fix d assume m: "d \<in> set (dispatched (updateGamepad s gps))"
    obtain a ctx where p: "d = (a, ctx)" by (cases d)
    from m p obtain j g b where "gamepadCheckBinding s j g b = Inr (Some (True, ctx))"
      using updateGamepad_sub [of a ctx s gps] by blast
    then have "ctx \<noteq> KeyboardContext" using gamepadCheckBinding_not_keyboard [of s j g b] by auto
    then show "snd d \<noteq> keyboardCtx" using p by (simp add: keyboardCtx_def)
  qed
  show ?thesis
    unfolding d u using k
    by (auto simp: keyDispatches_actions keyboardCtx_def dest: keyDispatches_ctx)
qed

theorem keyboard_edge_routing_witness:
  "dispatched (onKeyDown_handler (running [hotkeys, release]) ''Space'') = [(hotkeys, KeyboardContext)] \<and>
   dispatched (onKeyUp_handler (running [hotkeys, release]) ''Space'') = [(release, KeyboardContext)] \<and>
   failure (onKeyDown_handler (running [hotkeys, release]) ''Space'') = None \<and>
   gamepadCheckBinding (running [hotkeys, release]) 0 padPress (KeyboardBinding ''Space'' True) =
     Inr (Some (False, NoneContext)) \<and>
   dispatched (updateGamepad (running [hotkeys, release]) [Some padPress]) =
     [(hotkeys, GamepadBtnContext ''Xbox 360 Controller''
                  \<lparr>gamepad = padPress, prevGamepad = None, index = 0\<rparr>)]"
proof -
  have ok: "\<not> isInvalidGamepad padPress" by (simp add: isInvalidGamepad_def padPress_def)
  have f: "dispatched (updateGamepad (running [hotkeys, release]) [Some padPress]) =
     [(hotkeys, GamepadBtnContext ''Xbox 360 Controller''
                  \<lparr>gamepad = padPress, prevGamepad = None, index = 0\<rparr>)]"
    by (simp add: updateGamepad_single ok running_simps hotkeys_def release_def emptyCtx_def
          elemAt_def gamepadStateOf_def)
       (simp add: padPress_def)
  show ?thesis
    using keyboard_edge_routing [of "running [hotkeys, release]" "''Space''" 0 padPress "''Space''"
        True "[Some padPress]"] f
    by (simp add: keyDispatches_def running_simps hotkeys_def release_def emptyCtx_def)
qed



section \<open>Plain and specialized devices\<close>

text \<open>
  C5. A device whose id contains \<open>SpaceMouse\<close> never matches a gamepad
  binding and always matches a spacemouse binding; a device whose id does not
  contain it always matches a gamepad binding and never a spacemouse binding;
  both whatever the stored sample is. In a frame pass that completes, the
  gamepad dispatches are exactly one per gamepad binding and valid plain device,
  the spacemouse dispatches one per spacemouse binding and valid specialized
  device.
\<close>

theorem specialized_device_exclusive:
  "(str_includes (gamepad_id g) ''SpaceMouse'' \<longrightarrow>
      gamepadCheckBinding s i g GamepadBinding = Inr (Some (False, emptyCtx)) \<and>
      gamepadCheckBinding s i g SpaceMouseBinding =
        Inr (Some (True, SpaceMouseContext (gamepad_id g) (gamepadStateOf s i g) (axes g) (buttons g)))) \<and>
   (\<not> str_includes (gamepad_id g) ''SpaceMouse'' \<longrightarrow>
      gamepadCheckBinding s i g GamepadBinding =
        Inr (Some (True, GamepadContext (gamepad_id g) (gamepadStateOf s i g))) \<and>
      gamepadCheckBinding s i g SpaceMouseBinding = Inr (Some (False, emptyCtx))) \<and>
   (failure (updateGamepad s gps) = None \<longrightarrow>
      filter (isGamepadContext \<circ> snd) (dispatched (updateGamepad s gps)) =
        expectedDispatches plainDevice s gps \<and>
      filter (isSpaceMouseContext \<circ> snd) (dispatched (updateGamepad s gps)) =
        expectedDispatches specialDevice s gps)"
proof (intro conjI impI)
  assume f: "failure (updateGamepad s gps) = None"
  show "filter (isGamepadContext \<circ> snd) (dispatched (updateGamepad s gps)) =
        expectedDispatches plainDevice s gps"
    using f by (rule updateGamepad_filtered) (rule performs_plain)
  show "filter (isSpaceMouseContext \<circ> snd) (dispatched (updateGamepad s gps)) =
        expectedDispatches specialDevice s gps"
    using f by (rule updateGamepad_filtered) (rule performs_special)
qed (simp_all add: device_rules)

theorem specialized_device_exclusive_witness:
  "str_includes (gamepad_id spaceMouse) ''SpaceMouse'' \<and>
   \<not> str_includes (gamepad_id padIdle) ''SpaceMouse'' \<and>
   gamepadCheckBinding (running [drive, arm]) 1 spaceMouse GamepadBinding =
     Inr (Some (False, NoneContext)) \<and>
   gamepadCheckBinding (running [drive, arm]) 0 padIdle SpaceMouseBinding =
     Inr (Some (False, NoneContext)) \<and>
   failure (updateGamepad (running [drive, arm]) [Some padIdle, Some spaceMouse]) = None \<and>
   dispatched (updateGamepad (running [drive, arm]) [Some padIdle, Some spaceMouse]) =
     [(drive, GamepadContext ''Xbox 360 Controller''
                \<lparr>gamepad = padIdle, prevGamepad = None, index = 0\<rparr>),
      (arm, SpaceMouseContext ''3Dconnexion SpaceMouse Pro''
              \<lparr>gamepad = spaceMouse, prevGamepad = None, index = 1\<rparr>
              [0.1, 0.3] [BtnObject False 0])]"
proof -
  have m: "str_includes (gamepad_id spaceMouse) ''SpaceMouse''"
    "\<not> str_includes (gamepad_id padIdle) ''SpaceMouse''"
    by (simp_all add: spaceMouse_def padIdle_def)
  have u: "dispatched (updateGamepad (running [drive, arm]) [Some padIdle, Some spaceMouse]) =
        [(drive, GamepadContext ''Xbox 360 Controller''
                \<lparr>gamepad = padIdle, prevGamepad = None, index = 0\<rparr>),
         (arm, SpaceMouseContext ''3Dconnexion SpaceMouse Pro''
              \<lparr>gamepad = spaceMouse, prevGamepad = None, index = 1\<rparr>
              [0.1, 0.3] [BtnObject False 0])] \<and>
      failure (updateGamepad (running [drive, arm]) [Some padIdle, Some spaceMouse]) = None"
    by (simp add: updateGamepad_def updateGamepadFrom.simps elemAt_def isInvalidGamepad_def
          running_simps drive_def arm_def emptyCtx_def gamepadStateOf_def noEffect_def
          spaceMouse_def padIdle_def)
  show ?thesis
    using specialized_device_exclusive [of spaceMouse "running [drive, arm]" 1
        "[Some padIdle, Some spaceMouse]"]
      specialized_device_exclusive [of padIdle "running [drive, arm]" 0
        "[Some padIdle, Some spaceMouse]"] m u
    by (simp add: emptyCtx_def)
qed


section \<open>The slot loop's bound\<close>

text \<open>
  C9. The loop runs the index up to \<open>gamepads.length\<close> inclusive; the slot at
  that index reads empty and the iteration there does nothing. In every frame
  pass, complete or not, history is written only at indices below the length
  that hold a valid device, every dispatch comes from evaluating a binding for
  such a slot, and a frame without a valid slot has no effect at all.
\<close>

theorem slot_loop_bound:
  "elemAt gps (length gps) = None \<and>
   updateGamepadFrom gps (length gps) s = noEffect s \<and>
   (\<forall>j. lastGamepad (system (updateGamepad s gps)) j \<noteq> lastGamepad s j \<or>
         lastTimestamp (system (updateGamepad s gps)) j \<noteq> lastTimestamp s j \<longrightarrow>
         j < length gps \<and> (\<exists>g. gps ! j = Some g \<and> \<not> isInvalidGamepad g)) \<and>
   (\<forall>(a, ctx) \<in> set (dispatched (updateGamepad s gps)).
      \<exists>j g b. j < length gps \<and> gps ! j = Some g \<and> \<not> isInvalidGamepad g \<and>
        a \<in> set (actions s) \<and> b \<in> set (bindings a) \<and>
        gamepadCheckBinding s j g b = Inr (Some (True, ctx))) \<and>
   (validSlots gps = [] \<longrightarrow> updateGamepad s gps = noEffect s)"
proof (intro conjI allI impI)
  show "elemAt gps (length gps) = None" by (simp add: elemAt_def)
  show "updateGamepadFrom gps (length gps) s = noEffect s" by (rule updateGamepadFrom_end)
next
  fix j
  assume "lastGamepad (system (updateGamepad s gps)) j \<noteq> lastGamepad s j \<or>
         lastTimestamp (system (updateGamepad s gps)) j \<noteq> lastTimestamp s j"
  then have r: "j < length gps \<and> (\<exists>g. gps ! j = Some g \<and> \<not> isInvalidGamepad g)"
    by (rule updateGamepad_history)
  from r show "j < length gps" by simp
  from r show "\<exists>g. gps ! j = Some g \<and> \<not> isInvalidGamepad g" by simp
next
  show "\<forall>(a, ctx) \<in> set (dispatched (updateGamepad s gps)).
      \<exists>j g b. j < length gps \<and> gps ! j = Some g \<and> \<not> isInvalidGamepad g \<and>
        a \<in> set (actions s) \<and> b \<in> set (bindings a) \<and>
        gamepadCheckBinding s j g b = Inr (Some (True, ctx))"
    using updateGamepad_sub by blast
next
  assume "validSlots gps = []"
  then show "updateGamepad s gps = noEffect s" by (rule updateGamepad_nothing)
qed

theorem slot_loop_bound_witness:
  "lastGamepad (system (updateGamepad (running [estop]) [Some ghostPad, None, Some padPress])) 2
     \<noteq> lastGamepad (running [estop]) 2 \<and>
   (2::nat) < length [Some ghostPad, None, Some padPress] \<and>
   [Some ghostPad, None, Some padPress] ! 2 = Some padPress \<and> \<not> isInvalidGamepad padPress \<and>
   lastGamepad (system (updateGamepad (running [estop]) [Some ghostPad, None, Some padPress])) 3 = None \<and>
   dispatched (updateGamepad (running [estop]) [Some ghostPad, None, Some padPress]) =
     [(estop, GamepadBtnContext ''Xbox 360 Controller''
                \<lparr>gamepad = padPress, prevGamepad = None, index = 2\<rparr>)] \<and>
   validSlots [Some ghostPad, None, Some emptyPad] = [] \<and>
   updateGamepad (running [estop]) [Some ghostPad, None, Some emptyPad] = noEffect (running [estop])"
proof -
  have ok: "\<not> isInvalidGamepad padPress" "isInvalidGamepad ghostPad" "isInvalidGamepad emptyPad"
    by (simp_all add: isInvalidGamepad_def padPress_def ghostPad_def emptyPad_def)
  have v: "validSlots [Some ghostPad, None, Some emptyPad] = []"
    using ok by (simp add: validSlots_def validSlot_def elemAt_def)
  have u: "dispatched (updateGamepad (running [estop]) [Some ghostPad, None, Some padPress]) =
     [(estop, GamepadBtnContext ''Xbox 360 Controller''
                \<lparr>gamepad = padPress, prevGamepad = None, index = 2\<rparr>)] \<and>
     lastGamepad (system (updateGamepad (running [estop]) [Some ghostPad, None, Some padPress])) 2 =
       Some padPress \<and>
     lastGamepad (system (updateGamepad (running [estop]) [Some ghostPad, None, Some padPress])) 3 =
       None"
    using ok
    by (simp add: updateGamepad_def updateGamepadFrom.simps
          elemAt_def running_simps estop_def emptyCtx_def gamepadStateOf_def noEffect_def)
       (simp add: padPress_def)
  show ?thesis
    using slot_loop_bound [of "[Some ghostPad, None, Some padPress]" "running [estop]"]
      slot_loop_bound [of "[Some ghostPad, None, Some emptyPad]" "running [estop]"] u v ok
    by (simp add: running_simps)
qed



section \<open>The first frame of a slot\<close>

text \<open>
  C2. On the first frame of a slot (no stored sample) the gamepadAxis case
  reads \<open>this.lastGamepad[i].axes\<close> of \<open>undefined\<close>: the evaluation raises a
  TypeError, the pass ends with nothing dispatched and nothing stored, and a
  \<open>start\<close> leaves the system flagged running with no frame callback
  registered. The gamepadBtn case on the same first frame answers from the
  current sample alone.
\<close>

theorem gamepadAxis_first_frame_raises:
  "lastGamepad (fst (constructor [steer] True)) 0 = None \<and>
   gamepadCheckBinding (fst (constructor [steer] True)) 0 padIdle (GamepadAxisBinding 0) =
     Inl TypeError \<and>
   updateGamepad (running [steer]) [Some padIdle] =
     \<lparr>dispatched = [], system = running [steer], failure = Some TypeError, frameRequests = 0\<rparr> \<and>
   start (fst (constructor [steer] True)) [Some padIdle] =
     \<lparr>dispatched = [], system = running [steer], failure = Some TypeError, frameRequests = 0\<rparr> \<and>
   gamepadCheckBinding (fst (constructor [estop] True)) 0 padPress (GamepadBtnBinding 0) =
     Inr (Some (True, GamepadBtnContext ''Xbox 360 Controller''
                        \<lparr>gamepad = padPress, prevGamepad = None, index = 0\<rparr>))"
proof -
  have ok: "\<not> isInvalidGamepad padIdle" by (simp add: isInvalidGamepad_def padIdle_def)
  have u: "updateGamepad (running [steer]) [Some padIdle] =
     \<lparr>dispatched = [], system = running [steer], failure = Some TypeError, frameRequests = 0\<rparr>"
    by (simp add: updateGamepad_single ok running_simps steer_def)
  have "start (fst (constructor [steer] True)) [Some padIdle] =
      update (running [steer]) [Some padIdle]"
    by (simp add: start_def fresh_simps running_def)
  then have s: "start (fst (constructor [steer] True)) [Some padIdle] =
     \<lparr>dispatched = [], system = running [steer], failure = Some TypeError, frameRequests = 0\<rparr>"
    by (simp add: update_def running_simps u)
  have b: "gamepadCheckBinding (fst (constructor [estop] True)) 0 padPress (GamepadBtnBinding 0) =
     Inr (Some (True, GamepadBtnContext ''Xbox 360 Controller''
                        \<lparr>gamepad = padPress, prevGamepad = None, index = 0\<rparr>))"
    by (simp add: fresh_simps elemAt_def gamepadStateOf_def) (simp add: padPress_def)
  show ?thesis using u s b by (simp add: fresh_simps)
qed


section \<open>Bindings with an unknown tag\<close>

text \<open>
  C8, as the claim states it, fails: in a frame pass over a valid device an
  unknown tag raises a TypeError, and an action listed after it is not
  performed, though it is when the unknown binding is absent.
\<close>

theorem unknown_binding_raises_example:
  "updateGamepad (running [odd, drive]) [Some padIdle] =
     \<lparr>dispatched = [], system = running [odd, drive], failure = Some TypeError, frameRequests = 0\<rparr> \<and>
   dispatched (updateGamepad (running [drive]) [Some padIdle]) =
     [(drive, GamepadContext ''Xbox 360 Controller''
                \<lparr>gamepad = padIdle, prevGamepad = None, index = 0\<rparr>)] \<and>
   failure (updateGamepad (running [drive]) [Some padIdle]) = None"
proof -
  have ok: "\<not> isInvalidGamepad padIdle" by (simp add: isInvalidGamepad_def padIdle_def)
  show ?thesis
    by (simp add: updateGamepad_single ok running_simps odd_def drive_def gamepadStateOf_def)
       (simp add: padIdle_def)
qed

text \<open>
  C8, amended. For a binding whose tag is none of the five: the frame callback
  returns no decision, and \<open>checkActionsBindings\<close> raises a TypeError at that
  binding with nothing dispatched for it or after it; so every frame pass that
  presents a valid device to an action map containing such a binding raises,
  while a pass with no valid device does nothing. The keyboard handlers answer
  no for it, never fail, and dispatch for keyboard bindings only.
\<close>

theorem unknown_binding_behaviour:
  "gamepadCheckBinding s i g (UnknownBinding t) = Inr None \<and>
   checkBindings (gamepadCheckBinding s i g) a (UnknownBinding t # rest) = ([], Some TypeError) \<and>
   (validSlots gps \<noteq> [] \<and> (\<exists>a \<in> set (actions s). UnknownBinding t \<in> set (bindings a)) \<longrightarrow>
      failure (updateGamepad s gps) = Some TypeError) \<and>
   (validSlots gps = [] \<longrightarrow> updateGamepad s gps = noEffect s) \<and>
   keyDownCheckBinding c (UnknownBinding t) = Inr (Some (False, emptyCtx)) \<and>
   keyUpCheckBinding c (UnknownBinding t) = Inr (Some (False, emptyCtx)) \<and>
   failure (onKeyDown_handler s c) = None \<and> failure (onKeyUp_handler s c) = None \<and>
   (\<forall>d \<in> set (dispatched (onKeyDown_handler s c)) \<union> set (dispatched (onKeyUp_handler s c)).
      \<exists>b \<in> set (bindings (fst d)). \<exists>down. b = KeyboardBinding c down)"
proof (intro conjI impI)
  assume h: "validSlots gps \<noteq> [] \<and> (\<exists>a \<in> set (actions s). UnknownBinding t \<in> set (bindings a))"
  then obtain ig where ig: "ig \<in> set (validSlots gps)" by (cases "validSlots gps") auto
  from h obtain a where a: "a \<in> set (actions s)" "UnknownBinding t \<in> set (bindings a)" by blast
  have "gamepadCheckBinding s (fst ig) (snd ig) (UnknownBinding t) = Inr None" by simp
  then have "failure (updateGamepad s gps) \<noteq> None"
    unfolding updateGamepad_failure using ig a by force
  then show "failure (updateGamepad s gps) = Some TypeError" by (rule failure_TypeError)
next
  assume "validSlots gps = []"
  then show "updateGamepad s gps = noEffect s" by (rule updateGamepad_nothing)
next
  show "\<forall>d \<in> set (dispatched (onKeyDown_handler s c)) \<union> set (dispatched (onKeyUp_handler s c)).
      \<exists>b \<in> set (bindings (fst d)). \<exists>down. b = KeyboardBinding c down"
    by (auto simp: onKeyDown_handler_def onKeyUp_handler_def keyDown_actions keyUp_actions
          keyDispatches_def matchesKey_iff)
qed (simp_all add: onKeyDown_handler_def onKeyUp_handler_def keyDown_actions keyUp_actions)

theorem unknown_binding_behaviour_witness:
  "validSlots [Some padIdle] \<noteq> [] \<and>
   UnknownBinding ''mouse'' \<in> set (bindings odd) \<and>
   failure (updateGamepad (running [drive, odd]) [Some padIdle]) = Some TypeError \<and>
   validSlots [None] = [] \<and>
   updateGamepad (running [drive, odd]) [None] = noEffect (running [drive, odd]) \<and>
   failure (onKeyDown_handler (running [odd, hotkeys]) ''Space'') = None \<and>
   dispatched (onKeyDown_handler (running [odd, hotkeys]) ''Space'') = [(hotkeys, KeyboardContext)]"
proof -
  have ok: "\<not> isInvalidGamepad padIdle" by (simp add: isInvalidGamepad_def padIdle_def)
  have v: "validSlots [Some padIdle] = [(0, padIdle)]" "validSlots [None] = []"
    using ok by (simp_all add: validSlots_def validSlot_def elemAt_def)
  have k: "dispatched (onKeyDown_handler (running [odd, hotkeys]) ''Space'') = [(hotkeys, KeyboardContext)]"
    by (simp add: onKeyDown_handler_def running_simps odd_def hotkeys_def keyboardCtx_def)
  show ?thesis
    using unknown_binding_behaviour [of "running [drive, odd]" 0 padIdle "''mouse''" odd "[]"
        "[Some padIdle]" "''Space''"]
      unknown_binding_behaviour [of "running [drive, odd]" 0 padIdle "''mouse''" odd "[]"
        "[None]" "''Space''"]
      unknown_binding_behaviour [of "running [odd, hotkeys]" 0 padIdle "''mouse''" odd "[]"
        "[None]" "''Space''"] v k
    by (simp add: running_simps odd_def)
qed



section \<open>Starting\<close>

text \<open>
  C6, as the claim states it, fails: a \<open>start\<close> on a supported, stopped
  system takes the first frame sample within the call (an action is performed
  and the slot's sample stored before any frame callback runs), and when that
  sample raises, two starts in a row register no frame callback at all.
\<close>

theorem start_samples_at_once_example:
  "isBrowserSupported (fst (constructor [drive] True)) \<and>
   \<not> isRunning (fst (constructor [drive] True)) \<and>
   dispatched (start (fst (constructor [drive] True)) [Some padIdle]) =
     [(drive, GamepadContext ''Xbox 360 Controller''
                \<lparr>gamepad = padIdle, prevGamepad = None, index = 0\<rparr>)] \<and>
   lastGamepad (system (start (fst (constructor [drive] True)) [Some padIdle])) 0 = Some padIdle \<and>
   lastGamepad (fst (constructor [drive] True)) 0 = None \<and>
   isBrowserSupported (fst (constructor [steer] True)) \<and>
   \<not> isRunning (fst (constructor [steer] True)) \<and>
   frameRequests (start (fst (constructor [steer] True)) [Some padIdle]) +
     frameRequests (start (system (start (fst (constructor [steer] True)) [Some padIdle])) [Some padIdle]) = 0"
proof -
  have ok: "\<not> isInvalidGamepad padIdle" by (simp add: isInvalidGamepad_def padIdle_def)
  have a: "updateGamepad ((fst (constructor [drive] True))\<lparr>isRunning := True\<rparr>) [Some padIdle] =
     \<lparr>dispatched = [(drive, GamepadContext ''Xbox 360 Controller''
                \<lparr>gamepad = padIdle, prevGamepad = None, index = 0\<rparr>)],
      system = (fst (constructor [drive] True))
        \<lparr>isRunning := True, lastTimestamp := (lastTimestamp (fst (constructor [drive] True)))(0 \<mapsto> timestamp padIdle),
          lastGamepad := [0 \<mapsto> padIdle]\<rparr>,
      failure = None, frameRequests = 0\<rparr>"
    by (simp add: updateGamepad_single ok fresh_simps drive_def gamepadStateOf_def)
       (simp add: padIdle_def)
  have b: "failure (updateGamepad ((fst (constructor [steer] True))\<lparr>isRunning := True\<rparr>) [Some padIdle]) =
      Some TypeError"
    by (simp add: updateGamepad_single ok fresh_simps steer_def)
  have c: "start (fst (constructor [steer] True)) [Some padIdle] =
      updateGamepad ((fst (constructor [steer] True))\<lparr>isRunning := True\<rparr>) [Some padIdle]"
    using b by (simp add: start_def update_def fresh_simps Let_def)
  have d: "frameRequests (start (fst (constructor [steer] True)) [Some padIdle]) = 0"
    unfolding c by (simp add: updateGamepad_frame)
  have e: "frameRequests (start (system (start (fst (constructor [steer] True)) [Some padIdle])) [Some padIdle]) = 0"
    unfolding c by (simp add: start_def updateGamepad_frame noEffect_def)
  show ?thesis
    using a d e by (simp add: start_def update_def fresh_simps Let_def)
qed


text \<open>
  C6, amended. If the system is already running or the environment is
  unsupported, \<open>start\<close> changes nothing, performs nothing and registers
  nothing. Otherwise it sets the running flag and takes the first frame sample
  at once, within the call; when that sample completes it registers exactly one
  frame callback. A second \<open>start\<close> right after any \<open>start\<close> is without
  effect, so two starts in a row never register more than one callback, and
  exactly one when the sample completes. The constructor leaves the system stopped, and supported exactly
  when \<open>navigator.getGamepads\<close> exists.
\<close>

theorem start_guarded_idempotent:
  "(\<not> isBrowserSupported s \<or> isRunning s \<longrightarrow> start s gps = noEffect s) \<and>
   (isBrowserSupported s \<and> \<not> isRunning s \<longrightarrow>
      isRunning (system (start s gps)) \<and>
      dispatched (start s gps) = dispatched (updateGamepad (s\<lparr>isRunning := True\<rparr>) gps) \<and>
      failure (start s gps) = failure (updateGamepad (s\<lparr>isRunning := True\<rparr>) gps) \<and>
      lastGamepad (system (start s gps)) =
        lastGamepad (system (updateGamepad (s\<lparr>isRunning := True\<rparr>) gps)) \<and>
      (failure (start s gps) = None \<longrightarrow>
         frameRequests (start s gps) = 1 \<and>
         frameRequests (start s gps) + frameRequests (start (system (start s gps)) gps') = 1)) \<and>
   start (system (start s gps)) gps' = noEffect (system (start s gps)) \<and>
   frameRequests (start s gps) + frameRequests (start (system (start s gps)) gps') \<le> 1 \<and>
   \<not> isBrowserSupported (fst (constructor acts False)) \<and>
   isBrowserSupported (fst (constructor acts True)) \<and> \<not> isRunning (fst (constructor acts hasGetGamepads))"
proof (intro conjI impI)
  assume "\<not> isBrowserSupported s \<or> isRunning s"
  then show "start s gps = noEffect s" by (rule start_guard)
next
  assume h: "isBrowserSupported s \<and> \<not> isRunning s"
  then show "isRunning (system (start s gps))" using start_fresh(1) by blast
  from h show "dispatched (start s gps) = dispatched (updateGamepad (s\<lparr>isRunning := True\<rparr>) gps)"
    using start_fresh(3) by blast
  from h show "failure (start s gps) = failure (updateGamepad (s\<lparr>isRunning := True\<rparr>) gps)"
    using start_fresh(4) by blast
  from h show "lastGamepad (system (start s gps)) =
        lastGamepad (system (updateGamepad (s\<lparr>isRunning := True\<rparr>) gps))"
    using start_fresh(5) by blast
  assume f: "failure (start s gps) = None"
  from h f show one: "frameRequests (start s gps) = 1" using start_fresh(6) [of s gps] by simp
  show "frameRequests (start s gps) + frameRequests (start (system (start s gps)) gps') = 1"
    using one by (simp add: start_again noEffect_def)
next
  show "start (system (start s gps)) gps' = noEffect (system (start s gps))" by (rule start_again)
next
  have "frameRequests (start s gps) \<le> 1"
  proof (cases "isBrowserSupported s \<and> \<not> isRunning s")
    case True
    then show ?thesis using start_fresh(6) [of s gps] by simp
  next
    case False
    then show ?thesis using start_guard [of s gps] by (auto simp: noEffect_def)
  qed
  then show "frameRequests (start s gps) + frameRequests (start (system (start s gps)) gps') \<le> 1"
    by (simp add: start_again noEffect_def)
qed (simp_all add: constructor_def Let_def)

theorem start_guarded_idempotent_witness:
  "isBrowserSupported (fst (constructor [drive] True)) \<and>
   \<not> isRunning (fst (constructor [drive] True)) \<and>
   isRunning (system (start (fst (constructor [drive] True)) [Some padIdle])) \<and>
   failure (start (fst (constructor [drive] True)) [Some padIdle]) = None \<and>
   frameRequests (start (fst (constructor [drive] True)) [Some padIdle]) = 1 \<and>
   frameRequests (start (system (start (fst (constructor [drive] True)) [Some padIdle])) [Some padPress]) = 0 \<and>
   start (fst (constructor [drive] False)) [Some padIdle] = noEffect (fst (constructor [drive] False)) \<and>
   start (running [drive]) [Some padIdle] = noEffect (running [drive])"
proof -
  have ok: "\<not> isInvalidGamepad padIdle" by (simp add: isInvalidGamepad_def padIdle_def)
  have f: "failure (updateGamepad ((fst (constructor [drive] True))\<lparr>isRunning := True\<rparr>) [Some padIdle]) = None"
    by (simp add: updateGamepad_single ok fresh_simps drive_def)
  show ?thesis
    using start_guarded_idempotent [of "fst (constructor [drive] True)" "[Some padIdle]" "[Some padPress]"
        "[drive]" True]
      start_guarded_idempotent [of "fst (constructor [drive] False)" "[Some padIdle]" "[Some padPress]"
        "[drive]" False]
      start_guarded_idempotent [of "running [drive]" "[Some padIdle]" "[Some padPress]"
        "[drive]" True] f
    by (simp add: fresh_simps running_simps noEffect_def)
qed


section \<open>Isolation of the spacemouse context\<close>

text \<open>
  C4, as the claim states it, fails: a button object is shared between the
  device's buttons array and the context's copy, so changing it in place after
  the dispatch changes what the context reads for that button.
\<close>

theorem spacemouse_context_shares_button_objects:
  "inPlace liveStore liveMouse (SetButtonObject 2 True 1) \<and>
   contextReadsAfter liveStore liveMouse [] =
     Some (Some [0.1, 0.3], Some [Some (BtnObject False 0), Some (BtnNumber 0.5)]) \<and>
   contextReadsAfter liveStore liveMouse [SetButtonObject 2 True 1] =
     Some (Some [0.1, 0.3], Some [Some (BtnObject True 1), Some (BtnNumber 0.5)])"
  by (simp add: contextReadsAfter_def spacemouseArrays_def spreadAxes_def spreadButtons_def
        readAxes_def readButtons_def liveMouse_def liveStore_def)


text \<open>
  C4, amended. For a device whose arrays are allocated: after any changes to the
  live device the context's axes read as at dispatch time; after any changes
  that replace the contents of the device's axes or buttons array, or change
  button objects the device's buttons array does not refer to, the context's
  buttons read as at dispatch time too; and with no change at all the context
  reads the device's values at dispatch time.
\<close>

theorem spacemouse_context_isolation:
  "live_axes dev < nextRef st \<and> live_buttons dev < nextRef st \<longrightarrow>
     map_option fst (contextReadsAfter st dev ms) = map_option fst (contextReadsAfter st dev []) \<and>
     ((\<forall>m \<in> set ms. \<not> inPlace st dev m) \<longrightarrow>
        contextReadsAfter st dev ms = contextReadsAfter st dev []) \<and>
     contextReadsAfter st dev [] =
       (if axesArrays st (live_axes dev) = None \<or> buttonArrays st (live_buttons dev) = None
        then None
        else Some (axesArrays st (live_axes dev), readButtons st (live_buttons dev)))"
proof (intro impI conjI)
  assume h: "live_axes dev < nextRef st \<and> live_buttons dev < nextRef st"
  then have a: "live_axes dev < nextRef st" and b: "live_buttons dev < nextRef st" by simp_all
  show "map_option fst (contextReadsAfter st dev ms) = map_option fst (contextReadsAfter st dev [])"
    by (simp add: contextReadsAfter_axes [OF a b])
  show "contextReadsAfter st dev [] =
       (if axesArrays st (live_axes dev) = None \<or> buttonArrays st (live_buttons dev) = None
        then None
        else Some (axesArrays st (live_axes dev), readButtons st (live_buttons dev)))"
    by (rule contextReadsAfter_buttons [OF a b]) simp
  assume "\<forall>m \<in> set ms. \<not> inPlace st dev m"
  then show "contextReadsAfter st dev ms = contextReadsAfter st dev []"
    using contextReadsAfter_buttons [OF a b, of ms] contextReadsAfter_buttons [OF a b, of "[]"]
    by simp
qed

theorem spacemouse_context_isolation_witness:
  "live_axes liveMouse < nextRef liveStore \<and> live_buttons liveMouse < nextRef liveStore \<and>
   \<not> inPlace liveStore liveMouse (SetAxes [0.9, 0.9]) \<and>
   \<not> inPlace liveStore liveMouse (SetButtons [RawNumber 1]) \<and>
   \<not> inPlace liveStore liveMouse (SetButtonObject 7 True 1) \<and>
   contextReadsAfter liveStore liveMouse
     [SetAxes [0.9, 0.9], SetButtons [RawNumber 1], SetButtonObject 7 True 1] =
     Some (Some [0.1, 0.3], Some [Some (BtnObject False 0), Some (BtnNumber 0.5)]) \<and>
   map_option fst (contextReadsAfter liveStore liveMouse [SetButtonObject 2 True 1]) =
     Some (Some [0.1, 0.3])"
  using spacemouse_context_isolation [of liveMouse liveStore
      "[SetAxes [0.9, 0.9], SetButtons [RawNumber 1], SetButtonObject 7 True 1]"]
    spacemouse_context_isolation [of liveMouse liveStore "[SetButtonObject 2 True 1]"]
  by (simp add: liveMouse_def liveStore_def readButtons_def)


section \<open>Button bindings\<close>







section \<open>Axis bindings\<close>





end
